(* ===== verification/Gelf_Prelude.thy ===== *)
theory Gelf_Prelude
  imports Main "HOL-Library.Word" "HOL-Library.AList"
begin

text \<open>
  What the components share: the machine integers and byte strings of the program, the
  outcome of a fallible call (a value, an error that the caller may handle, or a panic),
  the two standard-library containers the code uses (a hash map and an ordered map) behind
  one interface, and generic facts on lists.
\<close>

section \<open>Collections of rewrite rules\<close>

named_theorems map_simps \<open>lookup laws of the containers\<close>
named_theorems outcome_simps \<open>case analysis of outcomes\<close>
named_theorems wf_intros \<open>well-formedness of containers and records\<close>

section \<open>Machine integers and bytes\<close>

type_synonym u8 = "8 word"
type_synonym u16 = "16 word"
type_synonym u32 = "32 word"
type_synonym u64 = "64 word"
type_synonym usize = "64 word"
type_synonym bytes = "u8 list"

text \<open>\<open>saturating_add\<close> of the standard library on \<open>usize\<close>.\<close>

definition saturating_add :: "usize \<Rightarrow> usize \<Rightarrow> usize" where
  "saturating_add a b = (if unat a + unat b < 2 ^ 64 then a + b else - 1)"

lemma unat_saturating_add:
  "unat (saturating_add a b) = min (unat a + unat b) (2 ^ 64 - 1)"
proof -
  have "unat (- 1 :: usize) = 2 ^ 64 - 1"
    by (simp add: unsigned_minus_1_eq_mask mask_eq_exp_minus_1)
  then show ?thesis
    by (auto simp: saturating_add_def unat_word_ariths)
qed

lemma unat_u8_less: "unat (x :: u8) < 256"
  using unsigned_less [of x] by simp

lemma unat_eq_Suc_0_iff: "unat (x :: 'a::len word) = Suc 0 \<longleftrightarrow> x = 1"
  by (metis One_nat_def unat_1 word_unat_eq_iff)

lemma unat_of_nat_eq: "n < 2 ^ LENGTH('a) \<Longrightarrow> unat (of_nat n :: 'a::len word) = n"
  by (simp add: unsigned_of_nat take_bit_nat_eq_self)

lemma u64_less_succ:
  assumes "x \<noteq> - 1"
  shows "(x :: u64) < x + 1"
proof -
  have "unat x < 2 ^ 64" "unat x \<noteq> 2 ^ 64 - 1"
    using unsigned_less [of x] assms
    by (simp_all add: word_unat_eq_iff unsigned_minus_1_eq_mask mask_eq_exp_minus_1)
  then show ?thesis
    by (simp add: word_less_nat_alt unat_word_ariths)
qed

lemma saturating_add_1_pos: "0 < unat (saturating_add m 1)"
  by (simp add: unat_saturating_add)

section \<open>Outcomes\<close>

text \<open>
  A call returns a value, returns an error (an \<open>Err\<close> that a caller can match), or
  panics (the thread unwinds with a payload; nothing after the panic runs). The payload of
  a panic is a static string, an owned string, or something else.
\<close>

datatype panic_payload = Panic_str string | Panic_string string | Panic_other

datatype ('e, 'a) outcome = Ok 'a | Err 'e | Panic panic_payload

fun outcome_bind :: "('e, 'a) outcome \<Rightarrow> ('a \<Rightarrow> ('e, 'b) outcome) \<Rightarrow> ('e, 'b) outcome" where
  "outcome_bind (Ok x) f = f x"
| "outcome_bind (Err e) f = Err e"
| "outcome_bind (Panic p) f = Panic p"

fun panics :: "('e, 'a) outcome \<Rightarrow> bool" where
  "panics (Panic p) = True"
| "panics _ = False"

lemma panics_iff [outcome_simps]: "panics r \<longleftrightarrow> (\<exists>p. r = Panic p)"
  by (cases r) auto

lemma outcome_bind_Ok_iff [outcome_simps]:
  "outcome_bind r f = Ok y \<longleftrightarrow> (\<exists>x. r = Ok x \<and> f x = Ok y)"
  by (cases r) auto

lemma panics_bind_iff [outcome_simps]:
  "panics (outcome_bind r f) \<longleftrightarrow> panics r \<or> (\<exists>x. r = Ok x \<and> panics (f x))"
  by (cases r) auto

lemma outcome_bind_assoc [outcome_simps]:
  "outcome_bind (outcome_bind r f) g = outcome_bind r (\<lambda>x. outcome_bind (f x) g)"
  by (cases r) auto

section \<open>Arithmetic of the build profile\<close>

text \<open>
  Rust's \<open>+\<close>, \<open>-\<close> and \<open>*\<close> on machine integers panic on overflow when the crate is built
  with overflow checks (a debug build, \<open>dbg\<close>) and wrap around otherwise.
\<close>

definition add_u8 :: "bool \<Rightarrow> u8 \<Rightarrow> u8 \<Rightarrow> ('e, u8) outcome" where
  "add_u8 dbg a b =
     (if dbg \<and> 2 ^ 8 \<le> unat a + unat b then Panic (Panic_str ''attempt to add with overflow'')
      else Ok (a + b))"

definition sub_u32 :: "bool \<Rightarrow> u32 \<Rightarrow> u32 \<Rightarrow> ('e, u32) outcome" where
  "sub_u32 dbg a b =
     (if dbg \<and> a < b then Panic (Panic_str ''attempt to subtract with overflow'')
      else Ok (a - b))"

definition mul_u32 :: "bool \<Rightarrow> u32 \<Rightarrow> u32 \<Rightarrow> ('e, u32) outcome" where
  "mul_u32 dbg a b =
     (if dbg \<and> 2 ^ 32 \<le> unat a * unat b
      then Panic (Panic_str ''attempt to multiply with overflow'')
      else Ok (a * b))"

definition pow_u32 :: "bool \<Rightarrow> u32 \<Rightarrow> u32 \<Rightarrow> ('e, u32) outcome" where
  "pow_u32 dbg a n =
     (if dbg \<and> 2 ^ 32 \<le> unat a ^ unat n
      then Panic (Panic_str ''attempt to multiply with overflow'')
      else Ok (a ^ unat n))"

section \<open>Decimal digits\<close>

text \<open>What \<open>{}\<close> prints for an unsigned integer.\<close>

fun show_nat :: "nat \<Rightarrow> string" where
  "show_nat n =
     (if n < 10 then [char_of (n + 48)] else show_nat (n div 10) @ [char_of (n mod 10 + 48)])"

declare show_nat.simps [simp del]

section \<open>Maps: the interface\<close>

text \<open>
  The operations the program uses of \<open>HashMap\<close> and \<open>BTreeMap\<close>, and the laws it relies on.
  The number of entries is the number of keys that have a value.
\<close>

locale finite_map =
  fixes empty :: "'m"
    and insert :: "'k \<Rightarrow> 'v \<Rightarrow> 'm \<Rightarrow> 'm"
    and remove :: "'k \<Rightarrow> 'm \<Rightarrow> 'm"
    and get :: "'m \<Rightarrow> 'k \<Rightarrow> 'v option"
    and len :: "'m \<Rightarrow> nat"
    and wf :: "'m \<Rightarrow> bool"
  assumes get_empty: "get empty k = None"
    and get_insert: "wf m \<Longrightarrow> get (insert k v m) k' = (if k' = k then Some v else get m k')"
    and get_remove: "wf m \<Longrightarrow> get (remove k m) k' = (if k' = k then None else get m k')"
    and len_card: "wf m \<Longrightarrow> len m = card (dom (get m))"
    and finite_dom: "wf m \<Longrightarrow> finite (dom (get m))"
    and wf_empty: "wf empty"
    and wf_insert: "wf m \<Longrightarrow> wf (insert k v m)"
    and wf_remove: "wf m \<Longrightarrow> wf (remove k m)"
begin

lemma dom_insert: "wf m \<Longrightarrow> dom (get (insert k v m)) = Set.insert k (dom (get m))"
  by (auto simp: dom_def get_insert)

lemma dom_remove: "wf m \<Longrightarrow> dom (get (remove k m)) = dom (get m) - {k}"
  by (auto simp: dom_def get_remove)

lemma len_empty: "len empty = 0"
  by (simp add: len_card wf_empty get_empty dom_def)

lemma len_insert:
  "wf m \<Longrightarrow> len (insert k v m) = (if get m k = None then Suc (len m) else len m)"
  by (simp add: len_card wf_insert dom_insert finite_dom card_insert_if domIff)

lemma len_remove:
  "wf m \<Longrightarrow> len (remove k m) = (if get m k = None then len m else len m - 1)"
  by (simp add: len_card wf_remove dom_remove finite_dom card_Diff_singleton_if domIff)

lemma len_0_iff: "wf m \<Longrightarrow> len m = 0 \<longleftrightarrow> (\<forall>k. get m k = None)"
  by (auto simp: len_card finite_dom domIff card_eq_0_iff)

text \<open>Two maps that index each other have the same number of entries.\<close>

lemma len_le_of_inj:
  assumes wf: "wf m" and fin: "finite B" and inj: "inj_on f (dom (get m))"
    and sub: "f ` dom (get m) \<subseteq> B"
  shows "len m \<le> card B"
  using card_mono [OF fin sub] card_image [OF inj] by (simp add: len_card wf)

end

section \<open>The hash map\<close>

text \<open>
  \<open>HashMap\<close> as an association list with distinct keys. Nothing in the model depends on the
  order of its entries.
\<close>

type_synonym ('k, 'v) hash_map = "('k \<times> 'v) list"

definition hm_get :: "('k, 'v) hash_map \<Rightarrow> 'k \<Rightarrow> 'v option" where
  "hm_get m k = map_of m k"

definition hm_insert :: "'k \<Rightarrow> 'v \<Rightarrow> ('k, 'v) hash_map \<Rightarrow> ('k, 'v) hash_map" where
  "hm_insert k v m = AList.update k v m"

definition hm_remove :: "'k \<Rightarrow> ('k, 'v) hash_map \<Rightarrow> ('k, 'v) hash_map" where
  "hm_remove k m = AList.delete k m"

definition hm_wf :: "('k, 'v) hash_map \<Rightarrow> bool" where
  "hm_wf m \<longleftrightarrow> distinct (map fst m)"

lemma length_distinct_alist:
  "distinct (map fst m) \<Longrightarrow> length m = card (dom (map_of m))"
  using distinct_card [of "map fst m"] by (simp add: dom_map_of_conv_image_fst)

interpretation hm: finite_map "[]" hm_insert hm_remove hm_get length hm_wf
  by unfold_locales
    (auto simp: hm_get_def [abs_def] hm_insert_def hm_remove_def hm_wf_def update_conv'
       delete_conv' length_distinct_alist finite_dom_map_of distinct_update distinct_delete)

section \<open>The ordered map\<close>

text \<open>\<open>BTreeMap\<close> as an association list in strictly ascending order of keys.\<close>

type_synonym ('k, 'v) btree_map = "('k \<times> 'v) list"

fun bt_insert :: "'k::linorder \<Rightarrow> 'v \<Rightarrow> ('k, 'v) btree_map \<Rightarrow> ('k, 'v) btree_map" where
  "bt_insert k v [] = [(k, v)]"
| "bt_insert k v ((k', v') # m) =
     (if k < k' then (k, v) # (k', v') # m
      else if k = k' then (k, v) # m
      else (k', v') # bt_insert k v m)"

definition bt_get :: "('k::linorder, 'v) btree_map \<Rightarrow> 'k \<Rightarrow> 'v option" where
  "bt_get m k = map_of m k"

definition bt_remove :: "'k::linorder \<Rightarrow> ('k, 'v) btree_map \<Rightarrow> ('k, 'v) btree_map" where
  "bt_remove k m = filter (\<lambda>(k', _). k' \<noteq> k) m"

text \<open>The entries below a key, in order: \<open>range(..k)\<close>.\<close>

definition bt_below :: "'k::linorder \<Rightarrow> ('k, 'v) btree_map \<Rightarrow> ('k \<times> 'v) list" where
  "bt_below k m = takeWhile (\<lambda>(k', _). k' < k) m"

text \<open>The values in ascending order of their keys: \<open>into_iter()\<close> without the keys.\<close>

definition bt_values :: "('k::linorder, 'v) btree_map \<Rightarrow> 'v list" where
  "bt_values m = map snd m"

definition bt_wf :: "('k::linorder, 'v) btree_map \<Rightarrow> bool" where
  "bt_wf m \<longleftrightarrow> sorted_wrt (<) (map fst m)"

lemma bt_wf_distinct: "bt_wf m \<Longrightarrow> distinct (map fst m)"
  by (simp add: bt_wf_def strict_sorted_iff)

lemma set_bt_insert_keys: "fst ` set (bt_insert k v m) = Set.insert k (fst ` set m)"
  by (induction k v m rule: bt_insert.induct) auto

lemma bt_wf_Cons: "bt_wf (e # m) \<longleftrightarrow> (\<forall>k \<in> fst ` set m. fst e < k) \<and> bt_wf m"
  by (auto simp: bt_wf_def)

lemma bt_wf_insert: "bt_wf m \<Longrightarrow> bt_wf (bt_insert k v m)"
  by (induction k v m rule: bt_insert.induct)
    (auto simp: bt_wf_Cons set_bt_insert_keys bt_wf_def [of "[]"])

lemma bt_wf_remove: "bt_wf m \<Longrightarrow> bt_wf (bt_remove k m)"
  by (induction m) (auto simp: bt_wf_def bt_remove_def)

lemma bt_get_insert:
  "bt_wf m \<Longrightarrow> bt_get (bt_insert k v m) k' = (if k' = k then Some v else bt_get m k')"
  by (induction k v m rule: bt_insert.induct) (auto simp: bt_wf_def bt_get_def)

lemma bt_get_remove:
  "bt_get (bt_remove k m) k' = (if k' = k then None else bt_get m k')"
  by (induction m) (auto simp: bt_get_def bt_remove_def)

interpretation bt: finite_map "[]" bt_insert bt_remove bt_get length bt_wf
  by unfold_locales
    (auto simp: bt_get_insert bt_get_remove bt_wf_insert bt_wf_remove finite_dom_map_of
      bt_wf_distinct length_distinct_alist, simp_all add: bt_get_def [abs_def]
      finite_dom_map_of bt_wf_def bt_wf_distinct length_distinct_alist)

lemmas hm_laws [map_simps] = hm.get_empty hm.get_insert hm.get_remove
lemmas bt_laws [map_simps] = bt.get_empty bt.get_insert bt.get_remove
lemmas map_wf [wf_intros] =
  hm.wf_empty hm.wf_insert hm.wf_remove bt.wf_empty bt.wf_insert bt.wf_remove

end
