(* ===== verification/Gelf_Error.thy ===== *)
theory Gelf_Error
  imports Gelf_Prelude
begin

text \<open>
  The errors the program reports (\<open>anyhow::Error\<close>), one constructor per place that makes
  one, with the text that \<open>Display\<close> prints and the chain of sources that the diagnostics
  walk. Errors of libraries carry the texts of their own chain.
\<close>

datatype io_kind = UnexpectedEof | ConnectionReset | OtherKind

datatype error =
    HeaderTooSmall
  | SeqOutOfRange u8 u8
  | TooManyChunks u8 u8
  | InconsistentTotal u8 u8
  | ClockBeforeEpoch
  | Io io_kind string
  | Library string "string list"
  | Context string error
  | TlsOverUdp
  | NoPkcs8Keys string
  | LevelSyntax
  | VarNotUnicode string
  | MetricsGone
  | MetricsJoin
  | NoHandle
  | Panicked string

type_synonym 'a result = "(error, 'a) outcome"

fun display :: "error \<Rightarrow> string" where
  "display HeaderTooSmall = ''buffer is too small to contain a valid chunk header''"
| "display (SeqOutOfRange count got) =
     ''expected '' @ show_nat (unat count) @ '' chunks but got '' @ show_nat (unat got)"
| "display (TooManyChunks count mx) =
     ''message expects '' @ show_nat (unat count) @ '' chunks but the max allowed is ''
       @ show_nat (unat mx)"
| "display (InconsistentTotal count prev) =
     ''chunk expected total '' @ show_nat (unat count)
       @ '' is not consistent with previous value '' @ show_nat (unat prev)"
| "display ClockBeforeEpoch = ''second time provided was later than self''"
| "display (Io k s) = s"
| "display (Library s srcs) = s"
| "display (Context s e) = s"
| "display TlsOverUdp = ''TLS is not supported when the protocol is UDP''"
| "display (NoPkcs8Keys path) =
     ''The file `'' @ path
       @ ''` used for the certificate private key doesn't contain any PKCS8 keys''"
| "display LevelSyntax = ''expected `DEBUG` or `ERROR`''"
| "display (VarNotUnicode s) = s"
| "display MetricsGone = ''sending on a closed channel''"
| "display MetricsJoin = ''failed to join diagnostics handle''"
| "display NoHandle = ''Failed to acquire handle to server''"
| "display (Panicked s) = s"

text \<open>The texts of the sources of an error, nearest first: \<open>source()\<close> followed to its end.\<close>

fun sources :: "error \<Rightarrow> string list" where
  "sources (Context s e) = display e # sources e"
| "sources (Library s srcs) = srcs"
| "sources _ = []"

text \<open>The slice \<open>&bytes[from..]\<close> panics when it starts past the end.\<close>

definition slice_from :: "nat \<Rightarrow> bytes \<Rightarrow> bytes result" where
  "slice_from from bs =
     (if length bs < from then Panic (Panic_string ''range start index out of range'')
      else Ok (drop from bs))"

end
