(* ===== verification/Diagnostics.thy ===== *)
theory Diagnostics
  imports Gelf_Error
begin

text \<open>
  \<open>diagnostics.rs\<close>: the process-wide minimum level, the metric counters that the
  \<open>increment!\<close> macro bumps, the events written to standard error, and the thread that
  samples the metrics. The globals of the module are one record, \<open>diag\<close>, that every
  operation takes and returns; \<open>utc_now\<close> is the clock that events are stamped with.
  Standard error is taken to accept what is written to it.
\<close>

section \<open>Levels\<close>

datatype level = Debug | Error

definition level_from_str :: "string \<Rightarrow> level result" where
  "level_from_str s =
     (if s = ''DEBUG'' then Ok Debug
      else if s = ''ERROR'' then Ok Error
      else Err LevelSyntax)"

fun level_to_usize :: "level \<Rightarrow> usize" where
  "level_to_usize Debug = 0"
| "level_to_usize Error = 1"

definition level_from_usize :: "usize \<Rightarrow> level" where
  "level_from_usize v = (if v = 0 then Debug else Error)"

section \<open>Metrics and events\<close>

datatype receive_metric =
    M_chunk | M_msg_chunked | M_msg_unchunked | M_msg_incomplete_chunk_overflow

datatype process_metric = M_msg

datatype server_metric =
    M_receive_ok | M_receive_err | M_process_ok | M_process_err
  | M_tcp_conn_accept | M_tcp_conn_close | M_tcp_conn_timeout | M_tcp_msg_overflow

datatype metric = Receive receive_metric | Process process_metric | Server server_metric

type_synonym metrics = "metric \<Rightarrow> usize"

text \<open>The counters in the order in which a sample goes through them.\<close>

definition all_metrics :: "metric list" where
  "all_metrics =
     map Receive [M_chunk, M_msg_chunked, M_msg_unchunked, M_msg_incomplete_chunk_overflow]
     @ map Process [M_msg]
     @ map Server [M_receive_ok, M_receive_err, M_process_ok, M_process_err, M_tcp_conn_accept,
         M_tcp_conn_close, M_tcp_conn_timeout, M_tcp_msg_overflow]"

record diagnostic_event =
  ev_timestamp :: int
  ev_level :: string
  ev_message_template :: string
  ev_error :: "string option"
  ev_additional :: "metrics option"

section \<open>The globals\<close>

text \<open>
  The sampling thread: it waits, or it is in a sample, with the counters it still has to
  read and the counts it has read. A handle is to a thread that runs, has returned or died.
\<close>

datatype sampler = Waiting | Sampling "metric list" metrics

datatype thread_status = Running sampler | Returned | Died

record diagnostics =
  metrics_handle :: "thread_status option"

record diag_config =
  metrics_interval_ms :: u64
  min_level :: level

record diag =
  level_cell :: usize
  counters :: metrics
  installed :: "diagnostics option"
  stderr :: "diagnostic_event list"
  utc_now :: int

definition default_diag_config :: diag_config where
  "default_diag_config = \<lparr>metrics_interval_ms = 1 * 1000 * 60, min_level = Error\<rparr>"

text \<open>The statics at program start: level cell 0, every counter 0, nothing installed.\<close>

definition metrics_new :: metrics where
  [simp]: "metrics_new = (\<lambda>_. 0)"

definition initial_diag :: "int \<Rightarrow> diag" where
  "initial_diag now =
     \<lparr>level_cell = 0, counters = metrics_new, installed = None, stderr = [], utc_now = now\<rparr>"

definition set_min_level :: "level \<Rightarrow> diag \<Rightarrow> diag" where
  "set_min_level l d = d\<lparr>level_cell := level_to_usize l\<rparr>"

definition get_min_level :: "diag \<Rightarrow> level" where
  "get_min_level d = level_from_usize (level_cell d)"

definition level_includes :: "diag \<Rightarrow> level \<Rightarrow> bool" where
  "level_includes d l \<longleftrightarrow> level_to_usize (get_min_level d) \<le> level_to_usize l"

text \<open>\<open>increment!\<close>: an atomic \<open>fetch_add(1)\<close>, which wraps, and only at the debug level.\<close>

definition increment :: "metric \<Rightarrow> diag \<Rightarrow> diag" where
  "increment m d =
     (if level_includes d Debug then d\<lparr>counters := (counters d)(m := counters d m + 1)\<rparr> else d)"

text \<open>
  \<open>Metrics::take\<close> swaps each counter for 0, one after the other: other threads may count in
  between. A sample takes the counters of all three modules.
\<close>

definition take_metric :: "metric \<Rightarrow> metrics \<times> diag \<Rightarrow> metrics \<times> diag" where
  "take_metric m = (\<lambda>(ms, d). (ms(m := counters d m), d\<lparr>counters := (counters d)(m := 0)\<rparr>))"

definition take_metrics :: "diag \<Rightarrow> metrics \<times> diag" where
  "take_metrics d = fold take_metric all_metrics (metrics_new, d)"

definition new_event ::
  "diag \<Rightarrow> string \<Rightarrow> string option \<Rightarrow> string \<Rightarrow> metrics option \<Rightarrow> diagnostic_event" where
  "new_event d lvl err template additional =
     \<lparr>ev_timestamp = utc_now d, ev_level = lvl, ev_message_template = template,
      ev_error = err, ev_additional = additional\<rparr>"

definition eprintln :: "diagnostic_event \<Rightarrow> diag \<Rightarrow> diag" where
  "eprintln e d = d\<lparr>stderr := stderr d @ [e]\<rparr>"

definition format_error :: "error \<Rightarrow> string" where
  "format_error e = display e @ concat (map (\<lambda>s. '': '' @ s) (sources e))"

definition emit :: "string \<Rightarrow> diag \<Rightarrow> diag" where
  "emit template d =
     (if level_includes d Debug then eprintln (new_event d ''DEBUG'' None template None) d else d)"

definition emit_debug_err :: "error \<Rightarrow> string \<Rightarrow> diag \<Rightarrow> diag" where
  "emit_debug_err e template d =
     (if level_includes d Debug
      then eprintln (new_event d ''DEBUG'' (Some (format_error e)) template None) d else d)"

definition emit_err :: "error \<Rightarrow> string \<Rightarrow> diag \<Rightarrow> diag" where
  "emit_err e template d =
     (if level_includes d Error
      then eprintln (new_event d ''ERROR'' (Some (format_error e)) template None) d else d)"

definition print_metrics :: "metrics \<times> diag \<Rightarrow> diag" where
  "print_metrics = (\<lambda>(ms, d).
     eprintln (new_event d ''DEBUG'' None ''Collected GELF server metrics'' (Some ms)) d)"

definition emit_metrics :: "diag \<Rightarrow> diag" where
  "emit_metrics d = (if level_includes d Debug then print_metrics (take_metrics d) else d)"

text \<open>The same as steps of the sampling thread: one counter at a time, then the event.\<close>

fun sampler_step :: "sampler \<Rightarrow> diag \<Rightarrow> sampler \<times> diag" where
  "sampler_step Waiting d =
     (if level_includes d Debug then Sampling all_metrics metrics_new else Waiting, d)"
| "sampler_step (Sampling (m # ms) sample) d =
     (case take_metric m (sample, d) of (sample, d) \<Rightarrow> (Sampling ms sample, d))"
| "sampler_step (Sampling [] sample) d = (Waiting, print_metrics (sample, d))"

text \<open>A thread that is in a sample brings it to its end.\<close>

fun finish_sample :: "sampler \<Rightarrow> diag \<Rightarrow> diag" where
  "finish_sample Waiting d = d"
| "finish_sample (Sampling ms sample) d = print_metrics (fold take_metric ms (sample, d))"

section \<open>Starting and stopping\<close>

text \<open>
  \<open>init\<close> panics when the diagnostics are installed already. The sampling thread is
  started only when the level that was just stored includes debug events.
\<close>

definition init_diagnostics :: "diag_config \<Rightarrow> diag \<Rightarrow> diag \<times> unit result" where
  "init_diagnostics config d =
     (if installed d \<noteq> None
      then (d, Panic (Panic_str ''GELF diagnostics have already been initialized''))
      else
        (let d' = set_min_level (min_level config) d;
             handle = (if level_includes d' Debug then Some (Running Waiting) else None)
         in (d'\<lparr>installed := Some \<lparr>metrics_handle = handle\<rparr>\<rparr>, Ok ())))"

text \<open>What the sampling thread gets from its channel, and whether its loop goes on.\<close>

datatype recv_timeout = Received_unit | Disconnected | Timed_out

fun metrics_thread_step :: "recv_timeout \<Rightarrow> diag \<Rightarrow> diag \<times> bool" where
  "metrics_thread_step Received_unit d = (emit_metrics d, False)"
| "metrics_thread_step Disconnected d = (emit_metrics d, False)"
| "metrics_thread_step Timed_out d = (emit_metrics d, True)"

text \<open>The thread takes a step, if it was started.\<close>

definition sampler_turn :: "diag \<Rightarrow> diag" where
  "sampler_turn d =
     (case Option.bind (installed d) metrics_handle of
        Some (Running s) \<Rightarrow>
          (case sampler_step s d of (s, d) \<Rightarrow>
             d\<lparr>installed := Some \<lparr>metrics_handle = Some (Running s)\<rparr>\<rparr>)
      | _ \<Rightarrow> d)"

text \<open>
  \<open>stop_metrics\<close> takes the handle, sends on the channel (an error when the thread is gone)
  and joins the thread, which brings a sample it is in to its end and then samples once
  more. The argument says whether the thread returns from that; if it dies instead, its
  counts are lost and joining it is an error. The result is the handle left behind, the
  globals and the outcome.
\<close>

fun stop_metrics :: "bool \<Rightarrow> diagnostics \<Rightarrow> diag \<Rightarrow> diagnostics \<times> diag \<times> unit result" where
  "stop_metrics joins g d =
     (let g' = g\<lparr>metrics_handle := None\<rparr>
      in case metrics_handle g of
           None \<Rightarrow> (g', d, Ok ())
         | Some (Running s) \<Rightarrow>
             (let d' = finish_sample s d
              in if joins then (g', fst (metrics_thread_step Received_unit d'), Ok ())
                 else (g', snd (take_metrics d'), Err MetricsJoin))
         | Some _ \<Rightarrow> (g', d, Err MetricsGone))"

text \<open>\<open>Drop\<close>: a handle that is still there is told to stop, and the send is not checked.\<close>

definition drop_diagnostics :: "diagnostics \<Rightarrow> diag \<Rightarrow> diag" where
  "drop_diagnostics g d =
     (case metrics_handle g of
        Some (Running s) \<Rightarrow> fst (metrics_thread_step Received_unit (finish_sample s d))
      | _ \<Rightarrow> d)"

definition stop_diagnostics :: "bool \<Rightarrow> diag \<Rightarrow> diag \<times> unit result" where
  "stop_diagnostics joins d =
     (case installed d of
        None \<Rightarrow> (d, Ok ())
      | Some g \<Rightarrow>
          (case stop_metrics joins g (d\<lparr>installed := None\<rparr>) of (g', d', r) \<Rightarrow>
             (drop_diagnostics g' d', r)))"

section \<open>Facts used by the other components\<close>

lemma level_includes_Debug_iff [simp]: "level_includes d Debug \<longleftrightarrow> level_cell d = 0"
  by (simp add: level_includes_def get_min_level_def level_from_usize_def)

lemma level_includes_Error [simp]: "level_includes d Error"
  by (simp add: level_includes_def get_min_level_def level_from_usize_def)

lemma level_roundtrip: "level_from_usize (level_to_usize l) = l"
  by (cases l) (auto simp: level_from_usize_def)

lemma get_set_min_level [simp]: "get_min_level (set_min_level l d) = l"
  by (simp add: get_min_level_def set_min_level_def level_roundtrip)

text \<open>Counting and printing change neither the level nor what is installed.\<close>

lemma set_all_metrics: "set all_metrics = UNIV"
proof -
  have "m \<in> set all_metrics" for m
  proof (cases m)
    case (Receive x)
    then show ?thesis by (cases x) (simp_all add: all_metrics_def)
  next
    case (Process x)
    then show ?thesis by (cases x) (simp add: all_metrics_def)
  next
    case (Server x)
    then show ?thesis by (cases x) (simp_all add: all_metrics_def)
  qed
  then show ?thesis by blast
qed

lemma distinct_all_metrics: "distinct all_metrics"
  by (simp add: all_metrics_def)

text \<open>Without other threads, taking counters one by one is taking them together.\<close>

lemma fold_take_metric:
  "distinct ms \<Longrightarrow> fold take_metric ms (sample, d) =
   (\<lambda>m. if m \<in> set ms then counters d m else sample m,
    d\<lparr>counters := (\<lambda>m. if m \<in> set ms then 0 else counters d m)\<rparr>)"
proof (induction ms arbitrary: sample d)
  case (Cons m ms)
  then show ?case by (auto simp: take_metric_def fun_eq_iff)
qed simp

lemma take_metrics_eq: "take_metrics d = (counters d, d\<lparr>counters := (\<lambda>_. 0)\<rparr>)"
  by (simp add: take_metrics_def fold_take_metric distinct_all_metrics set_all_metrics)

text \<open>The thread on its own: its steps are one sample.\<close>

lemma finish_sample_eq:
  "finish_sample (Sampling all_metrics metrics_new) d = print_metrics (take_metrics d)"
  by (simp add: take_metrics_def del: metrics_new_def)

lemma sampler_runs_out:
  "((\<lambda>(s, d). sampler_step s d) ^^ Suc (length ms)) (Sampling ms sample, d) =
   (Waiting, finish_sample (Sampling ms sample) d)"
proof (induction ms arbitrary: sample d)
  case (Cons m ms)
  obtain sample' d' where "take_metric m (sample, d) = (sample', d')" by fastforce
  with Cons.IH [of sample' d'] show ?case by (simp add: funpow_swap1 del: funpow.simps) (simp add: funpow_swap1)
qed simp

lemma sampler_alone:
  "level_includes d Debug \<Longrightarrow>
   ((\<lambda>(s, d). sampler_step s d) ^^ Suc (Suc (length all_metrics))) (Waiting, d) =
   (Waiting, fst (metrics_thread_step Timed_out d))"
  using sampler_runs_out [of all_metrics metrics_new d]
  by (simp add: emit_metrics_def finish_sample_eq funpow_swap1 del: metrics_new_def finish_sample.simps)

lemmas diag_op_defs = increment_def emit_def emit_debug_err_def emit_err_def emit_metrics_def
  print_metrics_def eprintln_def take_metrics_eq new_event_def

lemma level_cell_frame [simp]:
  "level_cell (increment m d) = level_cell d"
  "level_cell (emit t d) = level_cell d"
  "level_cell (emit_debug_err e t d) = level_cell d"
  "level_cell (emit_err e t d) = level_cell d"
  "level_cell (emit_metrics d) = level_cell d"
  by (auto simp: diag_op_defs)

lemma installed_frame [simp]:
  "installed (increment m d) = installed d"
  "installed (emit t d) = installed d"
  "installed (emit_debug_err e t d) = installed d"
  "installed (emit_err e t d) = installed d"
  "installed (emit_metrics d) = installed d"
  by (auto simp: diag_op_defs)

lemma counters_increment [simp]:
  "level_cell d = 0 \<Longrightarrow> counters (increment m d) = (counters d)(m := counters d m + 1)"
  "level_cell d \<noteq> 0 \<Longrightarrow> increment m d = d"
  by (auto simp: increment_def)

lemma counters_print [simp]:
  "counters (emit t d) = counters d"
  "counters (emit_debug_err e t d) = counters d"
  "counters (emit_err e t d) = counters d"
  by (auto simp: diag_op_defs)

section \<open>No count is lost or reported twice\<close>

text \<open>
  The counts of a metric that the events printed so far carry, those that the thread has
  read in a sample it is in, and both together with the count that is not read yet.
\<close>

definition reported :: "metric \<Rightarrow> diagnostic_event list \<Rightarrow> usize" where
  "reported m evs =
     sum_list (map (\<lambda>e. case ev_additional e of None \<Rightarrow> 0 | Some ms \<Rightarrow> ms m) evs)"

definition held :: "metric \<Rightarrow> diagnostics option \<Rightarrow> usize" where
  "held m g =
     (case Option.bind g metrics_handle of Some (Running (Sampling _ sample)) \<Rightarrow> sample m | _ \<Rightarrow> 0)"

definition accounted :: "metric \<Rightarrow> diag \<Rightarrow> usize" where
  "accounted m d = reported m (stderr d) + held m (installed d) + counters d m"

text \<open>A sample reads every counter once: what it has still to read it has not read yet.\<close>

definition sampler_ok :: "diagnostics option \<Rightarrow> bool" where
  "sampler_ok g =
     (case Option.bind g metrics_handle of
        Some (Running (Sampling ms sample)) \<Rightarrow> distinct ms \<and> (\<forall>m \<in> set ms. sample m = 0)
      | _ \<Rightarrow> True)"

text \<open>The operations on the globals that the running program interleaves.\<close>

datatype diag_op =
    Op_increment metric
  | Op_emit string
  | Op_emit_debug_err error string
  | Op_emit_err error string
  | Op_sampler

fun run_diag_op :: "diag_op \<Rightarrow> diag \<Rightarrow> diag" where
  "run_diag_op (Op_increment m) d = increment m d"
| "run_diag_op (Op_emit t) d = emit t d"
| "run_diag_op (Op_emit_debug_err e t) d = emit_debug_err e t d"
| "run_diag_op (Op_emit_err e t) d = emit_err e t d"
| "run_diag_op Op_sampler d = sampler_turn d"

lemma metrics_thread_step_fst [simp]: "fst (metrics_thread_step r d) = emit_metrics d"
  by (cases r) auto

lemma reported_Nil [simp]: "reported m [] = 0"
  and reported_append [simp]: "reported m (evs @ evs') = reported m evs + reported m evs'"
  by (simp_all add: reported_def)

lemma reported_event [simp]:
  "reported m [new_event d l e t None] = 0" "reported m [new_event d l e t (Some ms)] = ms m"
  by (simp_all add: reported_def new_event_def)

text \<open>A step of the thread moves counts, and nothing else.\<close>

lemma sampler_turn_cases:
  obtains (idle) "sampler_turn d = d"
    | (begins) "installed d = Some \<lparr>metrics_handle = Some (Running Waiting)\<rparr>"
      "sampler_turn d = d\<lparr>installed := Some \<lparr>metrics_handle = Some (Running (Sampling all_metrics metrics_new))\<rparr>\<rparr>"
    | (reads) m ms sample where "installed d = Some \<lparr>metrics_handle = Some (Running (Sampling (m # ms) sample))\<rparr>"
      "sampler_turn d = d\<lparr>counters := (counters d)(m := 0),
         installed := Some \<lparr>metrics_handle = Some (Running (Sampling ms (sample(m := counters d m))))\<rparr>\<rparr>"
    | (prints) sample where "installed d = Some \<lparr>metrics_handle = Some (Running (Sampling [] sample))\<rparr>"
      "sampler_turn d = (print_metrics (sample, d))\<lparr>installed := Some \<lparr>metrics_handle = Some (Running Waiting)\<rparr>\<rparr>"
proof (cases "Option.bind (installed d) metrics_handle")
  case None
  then show ?thesis by (intro idle) (simp add: sampler_turn_def)
next
  case (Some h)
  then have inst: "installed d = Some \<lparr>metrics_handle = Some h\<rparr>" by (cases "installed d") auto
  show ?thesis
  proof (cases h)
    case (Running s)
    show ?thesis
    proof (cases s)
      case Waiting
      with inst Running show ?thesis
        by (cases "level_includes d Debug") (use begins idle in \<open>auto simp: sampler_turn_def\<close>)
    next
      case (Sampling ms sample)
      with inst Running show ?thesis
        by (cases ms) (use reads prints in \<open>auto simp: sampler_turn_def take_metric_def\<close>)
    qed
  qed (use Some idle in \<open>auto simp: sampler_turn_def\<close>)
qed

lemma level_cell_sampler_turn [simp]: "level_cell (sampler_turn d) = level_cell d"
  by (cases d rule: sampler_turn_cases) (auto simp: print_metrics_def eprintln_def)

lemma sampler_turn_ok: "sampler_ok (installed d) \<Longrightarrow> sampler_ok (installed (sampler_turn d))"
  by (cases d rule: sampler_turn_cases) (auto simp: sampler_ok_def distinct_all_metrics)

lemma accounted_sampler_turn:
  assumes "sampler_ok (installed d)"
  shows "accounted m (sampler_turn d) = accounted m d"
proof (cases d rule: sampler_turn_cases)
  case (reads m' ms sample)
  with assms have "sample m' = 0" by (simp add: sampler_ok_def)
  with reads show ?thesis by (auto simp: accounted_def held_def)
qed (auto simp: accounted_def held_def print_metrics_def eprintln_def)

text \<open>Whether there is a thread, and whether it runs.\<close>

definition thread_runs :: "diagnostics \<Rightarrow> bool option" where
  "thread_runs g = map_option (\<lambda>h. \<exists>s. h = Running s) (metrics_handle g)"

lemma thread_runs_iff:
  "thread_runs g = Some True \<longleftrightarrow> (\<exists>s. g = \<lparr>metrics_handle = Some (Running s)\<rparr>)"
  "thread_runs g = None \<longleftrightarrow> g = \<lparr>metrics_handle = None\<rparr>"
  by (cases g; auto simp: thread_runs_def)+

lemma sampler_turn_installed:
  "map_option thread_runs (installed (sampler_turn d)) =
   map_option thread_runs (installed d)"
  by (cases d rule: sampler_turn_cases) (auto simp: thread_runs_def)

lemma level_cell_run_diag_op [simp]: "level_cell (run_diag_op a d) = level_cell d"
  by (cases a) auto

lemma accounted_increment [simp]:
  "level_cell d = 0 \<Longrightarrow>
   accounted m (increment m' d) = accounted m d + (if m = m' then 1 else 0)"
  by (auto simp: accounted_def increment_def)

lemma accounted_increment_other: "m \<noteq> m' \<Longrightarrow> accounted m (increment m' d) = accounted m d"
  by (simp add: accounted_def increment_def)

lemma accounted_print [simp]:
  "accounted m (emit t d) = accounted m d"
  "accounted m (emit_debug_err e t d) = accounted m d"
  "accounted m (emit_err e t d) = accounted m d"
  "accounted m (emit_metrics d) = accounted m d"
  by (auto simp: accounted_def reported_def diag_op_defs)

lemma run_diag_op_ok: "sampler_ok (installed d) \<Longrightarrow> sampler_ok (installed (run_diag_op a d))"
  by (cases a) (auto simp: sampler_turn_ok)

lemma accounted_run_diag_op:
  "level_cell d = 0 \<Longrightarrow> sampler_ok (installed d) \<Longrightarrow>
   accounted m (run_diag_op a d) = accounted m d + (if a = Op_increment m then 1 else 0)"
  by (cases a) (auto simp: accounted_sampler_turn)

lemma accounted_fold:
  "level_cell d = 0 \<Longrightarrow> sampler_ok (installed d) \<Longrightarrow>
   accounted m (fold run_diag_op ops d) = accounted m d + of_nat (count_list ops (Op_increment m))"
  by (induction ops arbitrary: d) (auto simp: accounted_run_diag_op run_diag_op_ok add.assoc)

lemma fold_run_diag_op_frame:
  "level_cell (fold run_diag_op ops d) = level_cell d \<and>
   (sampler_ok (installed d) \<longrightarrow> sampler_ok (installed (fold run_diag_op ops d))) \<and>
   map_option thread_runs (installed (fold run_diag_op ops d)) =
   map_option thread_runs (installed d)"
proof (induction ops arbitrary: d)
  case (Cons a ops)
  have "map_option thread_runs (installed (run_diag_op a d)) =
      map_option thread_runs (installed d)"
    by (cases a) (simp_all add: sampler_turn_installed)
  with Cons.IH [of "run_diag_op a d"] run_diag_op_ok [of d a] show ?case by simp
qed simp

text \<open>Stopping the thread, wherever it is, prints every count that was not printed yet.\<close>

lemma finish_sample_reports:
  assumes "sampler_ok (Some \<lparr>metrics_handle = Some (Running s)\<rparr>)"
  shows "reported m (stderr (finish_sample s d)) + counters (finish_sample s d) m =
      reported m (stderr d) + held m (Some \<lparr>metrics_handle = Some (Running s)\<rparr>) + counters d m"
    and "level_cell (finish_sample s d) = level_cell d" and "installed (finish_sample s d) = installed d"
proof -
  show "reported m (stderr (finish_sample s d)) + counters (finish_sample s d) m =
      reported m (stderr d) + held m (Some \<lparr>metrics_handle = Some (Running s)\<rparr>) + counters d m"
    using assms by (cases s) (auto simp: sampler_ok_def held_def fold_take_metric print_metrics_def eprintln_def)
  show "level_cell (finish_sample s d) = level_cell d" "installed (finish_sample s d) = installed d"
    using assms by (cases s; simp add: sampler_ok_def fold_take_metric print_metrics_def eprintln_def)+
qed

lemma emit_metrics_reports:
  "level_cell d = 0 \<Longrightarrow> counters (emit_metrics d) = (\<lambda>_. 0) \<and>
   reported m (stderr (emit_metrics d)) = reported m (stderr d) + counters d m"
  by (simp add: emit_metrics_def take_metrics_eq print_metrics_def eprintln_def)

section \<open>Properties\<close>

text \<open>
  C20: no count is lost or reported twice. Interleave increments, messages and the steps of
  the sampling thread, which reads one counter at a time and prints later, in any order at
  the debug level: the counts in the sampled events, those in a sample that is not printed
  yet and those not read yet are the number of increments, for every metric (modulo
  \<open>2 ^ 64\<close>).
\<close>

theorem counts_conserved:
  assumes "level_cell d = 0" and "counters d = (\<lambda>_. 0)" and "stderr d = []"
    and "installed d = None \<or> installed d = Some \<lparr>metrics_handle = Some (Running Waiting)\<rparr>"
    and "d' = fold run_diag_op ops d"
  shows "reported m (stderr d') + held m (installed d') + counters d' m =
    of_nat (count_list ops (Op_increment m))"
proof -
  have "sampler_ok (installed d)" "held m (installed d) = 0"
    using assms(4) by (auto simp: sampler_ok_def held_def)
  from accounted_fold [OF assms(1) this(1), of m ops] this(2) assms(2,3,5) show ?thesis
    by (simp add: accounted_def)
qed

theorem counts_conserved_witness:
  "\<exists>d'. d' = fold run_diag_op
       ([Op_increment (Process M_msg)] @ replicate 6 Op_sampler @ [Op_increment (Process M_msg), Op_sampler])
       ((initial_diag 0)\<lparr>installed := Some \<lparr>metrics_handle = Some (Running Waiting)\<rparr>\<rparr>) \<and>
     reported (Process M_msg) (stderr d') + held (Process M_msg) (installed d') + counters d' (Process M_msg) = 2"
  using counts_conserved [of "(initial_diag 0)\<lparr>installed := Some \<lparr>metrics_handle = Some (Running Waiting)\<rparr>\<rparr>" _
      "[Op_increment (Process M_msg)] @ replicate 6 Op_sampler @ [Op_increment (Process M_msg), Op_sampler]"
      "Process M_msg"]
  by (simp add: initial_diag_def)

text \<open>
  C30: starting and stopping. From fresh globals, starting succeeds and stores the level;
  starting a second time panics and changes nothing. Stopping after any work, whatever the
  sampling thread is doing, leaves nothing installed, so that the diagnostics can be started
  again. It fails only if there is a thread and it cannot be joined. At the debug level with
  a thread that returns, every count is then in a printed event and none in the counters.
\<close>

theorem diagnostics_lifecycle:
  assumes "installed d = None" and "init_diagnostics cfg d = (d1, r)"
    and "d2 = fold run_diag_op ops d1" and "stop_diagnostics joins d2 = (d3, r')"
  shows "r = Ok () \<and> get_min_level d1 = min_level cfg \<and>
    init_diagnostics cfg' d1 =
      (d1, Panic (Panic_str ''GELF diagnostics have already been initialized'')) \<and>
    r' = (if min_level cfg = Debug \<and> \<not> joins then Err MetricsJoin else Ok ()) \<and> installed d3 = None \<and>
    (min_level cfg = Debug \<and> joins \<longrightarrow> counters d3 = (\<lambda>_. 0) \<and> reported m (stderr d3) = accounted m d2)"
proof -
  let ?h = "if min_level cfg = Debug then Some (Running Waiting) else None"
  have d1: "d1 = (set_min_level (min_level cfg) d)\<lparr>installed := Some \<lparr>metrics_handle = ?h\<rparr>\<rparr>" "r = Ok ()"
    using assms(1,2) by (cases "min_level cfg"; auto simp: init_diagnostics_def Let_def set_min_level_def)+
  have frame: "level_cell d2 = level_to_usize (min_level cfg)" "sampler_ok (installed d2)"
    "map_option thread_runs (installed d2) = Some (map_option (\<lambda>_. True) ?h)"
    using fold_run_diag_op_frame [of ops d1]
    by (auto simp: assms(3) d1 set_min_level_def sampler_ok_def thread_runs_def)
  have stopped: "r' = (if min_level cfg = Debug \<and> \<not> joins then Err MetricsJoin else Ok ()) \<and> installed d3 = None \<and>
    (min_level cfg = Debug \<and> joins \<longrightarrow> counters d3 = (\<lambda>_. 0) \<and> reported m (stderr d3) = accounted m d2)"
  proof (cases "min_level cfg")
    case Debug
    then obtain s where s: "installed d2 = Some \<lparr>metrics_handle = Some (Running s)\<rparr>"
      using frame(3) by (auto simp: thread_runs_iff)
    let ?d = "finish_sample s (d2\<lparr>installed := None\<rparr>)"
    note finished = finish_sample_reports [OF frame(2) [unfolded s], where d = "d2\<lparr>installed := None\<rparr>"]
    have "level_cell ?d = 0" using finished(2) frame(1) Debug by simp
    note emitted = emit_metrics_reports [OF this, of m]
    have "(d3, r') = (if joins then (emit_metrics ?d, Ok ()) else (snd (take_metrics ?d), Err MetricsJoin))"
      using assms(4) s by (simp add: stop_diagnostics_def drop_diagnostics_def Let_def split: if_splits)
    then show ?thesis
      using emitted finished(1,3) s Debug
      by (auto simp: accounted_def take_metrics_eq split: if_splits)
  next
    case Error
    then have "installed d2 = Some \<lparr>metrics_handle = None\<rparr>"
      using frame(3) by (auto simp: thread_runs_iff)
    with assms(4) Error show ?thesis by (auto simp: stop_diagnostics_def drop_diagnostics_def)
  qed
  have "get_min_level d1 = min_level cfg" "installed d1 \<noteq> None"
    by (simp_all add: d1(1) get_min_level_def set_min_level_def level_roundtrip)
  with stopped d1(2) show ?thesis by (simp add: init_diagnostics_def)
qed

theorem diagnostics_lifecycle_witness:
  "\<exists>d1 d3. init_diagnostics \<lparr>metrics_interval_ms = 5, min_level = Debug\<rparr> (initial_diag 0) = (d1, Ok ()) \<and>
     stop_diagnostics True (fold run_diag_op [Op_increment (Process M_msg), Op_sampler, Op_sampler] d1) = (d3, Ok ()) \<and>
     reported (Process M_msg) (stderr d3) =
       accounted (Process M_msg) (fold run_diag_op [Op_increment (Process M_msg), Op_sampler, Op_sampler] d1)"
proof -
  let ?cfg = "\<lparr>metrics_interval_ms = 5, min_level = Debug\<rparr>"
  let ?ops = "[Op_increment (Process M_msg), Op_sampler, Op_sampler]"
  obtain d1 r where i: "init_diagnostics ?cfg (initial_diag 0) = (d1, r)" by fastforce
  obtain d3 r' where s: "stop_diagnostics True (fold run_diag_op ?ops d1) = (d3, r')"
    by fastforce
  show ?thesis
    using diagnostics_lifecycle [OF _ i refl s, of ?cfg "Process M_msg"] i s
    by (simp add: initial_diag_def)
qed

end
