(* ===== verification/Message.thy ===== *)
theory Message
  imports Diagnostics
begin

text \<open>
  The raw messages of \<open>receive.rs\<close>: how compression is recognised from the first two
  bytes, how a datagram becomes a message, and the 12-byte header of a chunk. The encoder of
  a chunk (\<open>udp_chunk\<close> of the integration tests' support code) is the other half of the
  round trip.
\<close>

section \<open>Compression\<close>

datatype compression = Gzip | Zlib

definition MAGIC_GZIP :: "u8 \<times> u8" where
  "MAGIC_GZIP = (0x1f, 0x8b)"

definition MAGIC_ZLIB :: u8 where
  "MAGIC_ZLIB = 0x78"

definition detect :: "u8 \<times> u8 \<Rightarrow> compression option" where
  "detect header =
     (if header = MAGIC_GZIP then Some Gzip
      else if fst header = MAGIC_ZLIB \<and>
        (push_bit 8 (ucast (fst header) :: u16) + ucast (snd header)) mod 31 = 0
      then Some Zlib
      else None)"

section \<open>Messages\<close>

datatype message = Single "compression option" bytes | Chunked "bytes list"

definition MAGIC_CHUNKED :: "u8 \<times> u8" where
  "MAGIC_CHUNKED = (0x1e, 0x0f)"

definition peek_magic_bytes :: "bytes \<Rightarrow> (u8 \<times> u8) option" where
  "peek_magic_bytes src = (if length src < 2 then None else Some (src ! 0, src ! 1))"

text \<open>
  \<open>Message::single\<close>: an empty source is no message. The assertion is compiled into debug
  builds only.
\<close>

definition single :: "bool \<Rightarrow> compression option \<Rightarrow> bytes \<Rightarrow> message option result" where
  "single dbg c src =
     (if length src = 0 then Ok None
      else if dbg \<and> Option.bind (peek_magic_bytes src) detect \<noteq> c
      then Panic (Panic_string ''assertion `left == right` failed'')
      else Ok (Some (Single c src)))"

definition chunked_message :: "bytes list \<Rightarrow> message option" where
  "chunked_message chunks = (if length chunks = 0 then None else Some (Chunked chunks))"

fun message_compression :: "message \<Rightarrow> compression option" where
  "message_compression (Single c bs) = c"
| "message_compression (Chunked chunks) =
     (case chunks of
        [] \<Rightarrow> None
      | first # _ \<Rightarrow> Option.bind (peek_magic_bytes first) detect)"

text \<open>\<open>MemRead::bytes\<close>: only an uncompressed single message is a slice already.\<close>

fun message_bytes :: "message \<Rightarrow> bytes option" where
  "message_bytes (Single None bs) = Some bs"
| "message_bytes _ = None"

section \<open>Chunk headers\<close>

record chunk_header =
  header_id :: u64
  seq_num :: u8
  seq_count :: u8

definition HEADER_SIZE :: nat where
  "HEADER_SIZE = 12"

text \<open>\<open>Buf::get_u64\<close>: eight bytes, most significant first.\<close>

definition get_u64 :: "bytes \<Rightarrow> u64" where
  "get_u64 bs = foldl (\<lambda>acc b. push_bit 8 acc + ucast b) 0 (take 8 bs)"

text \<open>
  \<open>ChunkHeader::get\<close>: the header is split off the buffer, which keeps the payload, also
  when the header is then refused. The text of that refusal computes \<open>seq_num + 1\<close> in
  eight bits.
\<close>

definition chunk_header_get :: "bool \<Rightarrow> bytes \<Rightarrow> bytes \<times> chunk_header result" where
  "chunk_header_get dbg buf =
     (if length buf < HEADER_SIZE then (buf, Err HeaderTooSmall)
      else
        (let header = take HEADER_SIZE buf;
             rest = drop HEADER_SIZE buf;
             i = get_u64 (drop 2 header);
             num = header ! 10;
             count = header ! 11
         in if count \<le> num
            then (rest, outcome_bind (add_u8 dbg num 1) (\<lambda>got. Err (SeqOutOfRange count got)))
            else (rest, Ok \<lparr>header_id = i, seq_num = num, seq_count = count\<rparr>)))"

section \<open>The encoder of a chunk\<close>

definition be_bytes :: "u64 \<Rightarrow> bytes" where
  "be_bytes w = map (\<lambda>i. ucast (drop_bit (8 * (7 - i)) w)) [0..<8]"

definition udp_chunk :: "u64 \<Rightarrow> u8 \<Rightarrow> u8 \<Rightarrow> bytes \<Rightarrow> bytes" where
  "udp_chunk i num total_count payload = [0x1e, 0x0f] @ be_bytes i @ [num, total_count] @ payload"

section \<open>Facts\<close>

lemma peek_magic_bytes_Cons [simp]:
  "peek_magic_bytes [] = None"
  "peek_magic_bytes [a] = None"
  "peek_magic_bytes (a # b # bs) = Some (a, b)"
  by (simp_all add: peek_magic_bytes_def)

lemma detect_exclusive: "detect MAGIC_CHUNKED = None"
  by (simp add: detect_def MAGIC_CHUNKED_def MAGIC_GZIP_def MAGIC_ZLIB_def)

text \<open>The assertion of \<open>Message::single\<close> never fails where the code calls it.\<close>

lemma single_detected:
  "single dbg (Option.bind (peek_magic_bytes src) detect) src =
   Ok (if src = [] then None
       else Some (Single (Option.bind (peek_magic_bytes src) detect) src))"
  by (simp add: single_def)

lemma length_be_bytes [simp]: "length (be_bytes w) = 8"
  by (simp add: be_bytes_def)

lemma be_bytes_unfold:
  "be_bytes w =
   [ucast (drop_bit 56 w), ucast (drop_bit 48 w), ucast (drop_bit 40 w), ucast (drop_bit 32 w),
    ucast (drop_bit 24 w), ucast (drop_bit 16 w), ucast (drop_bit 8 w), ucast w]"
  by (simp add: be_bytes_def upt_rec)

text \<open>One byte of a big-endian number put back below the bytes above it.\<close>

lemma push_byte:
  fixes w :: u64
  shows "push_bit 8 (drop_bit (n + 8) w) + ucast (ucast (drop_bit n w) :: u8) = drop_bit n w"
proof -
  have "ucast (ucast (drop_bit n w) :: u8) = take_bit 8 (drop_bit n w)"
    by (simp add: unsigned_ucast_eq)
  moreover have "drop_bit (n + 8) w = drop_bit 8 (drop_bit n w)"
    by (simp add: add.commute)
  ultimately show ?thesis
    by (simp only: bits_ident)
qed

lemma get_u64_be_bytes: "get_u64 (be_bytes w @ bs) = w"
proof -
  note steps = push_byte [of 48 w] push_byte [of 40 w] push_byte [of 32 w]
    push_byte [of 24 w] push_byte [of 16 w] push_byte [of 8 w] push_byte [of 0 w]
  have top: "ucast (ucast (drop_bit 56 w) :: u8) = drop_bit 56 w"
    by (rule bit_word_eqI) (auto simp: bit_simps dest: bit_imp_le_length)
  show ?thesis
    using steps by (simp add: get_u64_def be_bytes_unfold top)
qed

lemma udp_chunk_magic [simp]: "peek_magic_bytes (udp_chunk i num n bs) = Some MAGIC_CHUNKED"
  by (simp add: udp_chunk_def MAGIC_CHUNKED_def)

lemma udp_chunk_length [simp]: "length (udp_chunk i num n bs) = 12 + length bs"
  by (simp add: udp_chunk_def)

lemma chunk_header_get_udp_chunk:
  "chunk_header_get dbg (udp_chunk i num n bs) =
   (bs, if num < n then Ok \<lparr>header_id = i, seq_num = num, seq_count = n\<rparr>
        else outcome_bind (add_u8 dbg num 1) (\<lambda>got. Err (SeqOutOfRange n got)))"
proof -
  have parts: "take 12 (udp_chunk i num n bs) = [0x1e, 0x0f] @ be_bytes i @ [num, n]"
    "drop 12 (udp_chunk i num n bs) = bs"
    by (simp_all add: udp_chunk_def)
  have "([0x1e, 0x0f] @ be_bytes i @ [num, n]) ! 10 = num"
    "([0x1e, 0x0f] @ be_bytes i @ [num, n]) ! 11 = n"
    by (simp_all add: nth_append nth_Cons')
  then show ?thesis
    by (simp add: chunk_header_get_def HEADER_SIZE_def parts get_u64_be_bytes linorder_not_le [symmetric])
qed

text \<open>A header that is accepted names a chunk below its count, so a count of 0 never is.\<close>

lemma chunk_header_get_OkD:
  assumes "chunk_header_get dbg buf = (rest, Ok h)"
  shows "seq_num h < seq_count h" "12 \<le> length buf" "rest = drop 12 buf"
  using assms
  by (auto simp: chunk_header_get_def HEADER_SIZE_def Let_def not_le add_u8_def
      split: if_splits)

text \<open>The only panic of a header is the overflow of \<open>seq_num + 1\<close> in a checked build.\<close>

lemma chunk_header_get_panics_iff:
  "panics (snd (chunk_header_get dbg buf)) \<longleftrightarrow> dbg \<and> 12 \<le> length buf \<and> buf ! 10 = 255"
proof -
  have "2 ^ 8 \<le> unat x + unat (1 :: u8) \<longleftrightarrow> x = 255" for x :: u8
    using unat_u8_less [of x]
    by (auto simp: word_unat_eq_iff)
  moreover have "x \<le> 255" for x :: u8
    using unat_u8_less [of x] by (simp add: word_le_nat_alt)
  ultimately show ?thesis
    by (auto simp: chunk_header_get_def HEADER_SIZE_def Let_def add_u8_def)
qed

lemma push_byte_or: "push_bit 8 x + ucast (b :: u8) = or (push_bit 8 x) (ucast b)" for x :: u64
  by (rule disjunctive_add) (auto simp: bit_simps dest: bit_imp_le_length)

lemma be_bytes_get_u64:
  assumes "length bs = 8"
  shows "be_bytes (get_u64 bs) = bs"
proof -
  obtain b0 b1 b2 b3 b4 b5 b6 b7 where bs: "bs = [b0, b1, b2, b3, b4, b5, b6, b7]"
    using assms by (auto simp: numeral_eq_Suc length_Suc_conv)
  show ?thesis
    unfolding bs be_bytes_unfold get_u64_def
    by (simp add: push_byte_or, intro conjI; rule bit_word_eqI;
        auto simp: bit_simps dest: bit_imp_le_length)
qed

lemma get_u64_take: "8 \<le> n \<Longrightarrow> get_u64 (take n bs) = get_u64 bs"
  by (simp add: get_u64_def min_def)

lemma chunk_header_get_Ok_iff:
  "chunk_header_get dbg buf = (rest, Ok h) \<longleftrightarrow>
   12 \<le> length buf \<and> buf ! 10 < buf ! 11 \<and> rest = drop 12 buf \<and>
   h = \<lparr>header_id = get_u64 (drop 2 buf), seq_num = buf ! 10, seq_count = buf ! 11\<rparr>"
  by (auto simp: chunk_header_get_def HEADER_SIZE_def Let_def add_u8_def drop_take get_u64_take)

section \<open>Properties\<close>

text \<open>
  C16: the chunk header is a faithful encoding. A datagram with the chunk magic is accepted
  with a given header and payload exactly when it is the encoding of that header and
  payload and the sequence number is below the count.
\<close>

theorem chunk_header_roundtrip:
  "peek_magic_bytes src = Some MAGIC_CHUNKED \<and> chunk_header_get dbg src = (payload, Ok h) \<longleftrightarrow>
   seq_num h < seq_count h \<and> src = udp_chunk (header_id h) (seq_num h) (seq_count h) payload"
proof
  assume r: "seq_num h < seq_count h \<and>
    src = udp_chunk (header_id h) (seq_num h) (seq_count h) payload"
  then show "peek_magic_bytes src = Some MAGIC_CHUNKED \<and>
      chunk_header_get dbg src = (payload, Ok h)"
    by (simp add: chunk_header_get_udp_chunk)
next
  assume l: "peek_magic_bytes src = Some MAGIC_CHUNKED \<and>
    chunk_header_get dbg src = (payload, Ok h)"
  then have parts: "12 \<le> length src" "payload = drop 12 src" "seq_num h < seq_count h"
    "h = \<lparr>header_id = get_u64 (drop 2 src), seq_num = src ! 10, seq_count = src ! 11\<rparr>"
    by (auto simp: chunk_header_get_Ok_iff)
  have "take 2 src = [0x1e, 0x0f]"
    using l parts(1) by (cases src rule: remdups_adj.cases) (auto simp: MAGIC_CHUNKED_def)
  moreover have "src = take 2 src @ take 8 (drop 2 src) @ drop 10 src"
    using append_take_drop_id [of 8 "drop 2 src"] by simp
  moreover have "drop 10 src = src ! 10 # src ! 11 # drop 12 src"
    using parts(1) Cons_nth_drop_Suc [of 10 src] Cons_nth_drop_Suc [of 11 src] by simp
  moreover have "be_bytes (get_u64 (drop 2 src)) = take 8 (drop 2 src)"
    using parts(1) be_bytes_get_u64 [of "take 8 (drop 2 src)"] by (simp add: get_u64_take)
  ultimately show "seq_num h < seq_count h \<and>
      src = udp_chunk (header_id h) (seq_num h) (seq_count h) payload"
    using parts by (simp add: udp_chunk_def)
qed

text \<open>
  C38: the header checks themselves cannot panic in a release build, but a header that is
  refused with sequence number 255 is reported with the number 0 (the text computes
  \<open>seq_num + 1\<close> in eight bits), and in a debug build reporting it panics.
\<close>

theorem header_255_overflow:
  "chunk_header_get False (udp_chunk i 255 n payload) = (payload, Err (SeqOutOfRange n 0)) \<and>
   panics (snd (chunk_header_get True (udp_chunk i 255 n payload)))"
proof -
  have "\<not> 255 < n"
    using unat_u8_less [of n] by (simp add: word_less_nat_alt)
  then show ?thesis
    by (simp add: chunk_header_get_udp_chunk add_u8_def)
qed

end
