(* ===== verification/Sys_Time.thy ===== *)
theory Sys_Time
  imports Gelf_Error
begin

text \<open>
  The standard library's clock types as the program uses them: \<open>SystemTime\<close> is a signed
  number of nanoseconds since the epoch whose seconds fit 64 bits, \<open>Duration\<close> an unsigned
  number of nanoseconds.
\<close>

type_synonym duration = nat
type_synonym system_time = int

definition from_millis :: "u64 \<Rightarrow> duration" where
  "from_millis ms = unat ms * 1000000"

definition from_secs :: "u64 \<Rightarrow> duration" where
  "from_secs s = unat s * 1000000000"

text \<open>\<open>Duration::new\<close> panics when carrying the nanoseconds overflows the seconds.\<close>

definition duration_new :: "u64 \<Rightarrow> u32 \<Rightarrow> duration result" where
  "duration_new secs nanos =
     (if 2 ^ 64 \<le> unat secs + unat nanos div 1000000000
      then Panic (Panic_str ''overflow in Duration::new'')
      else Ok (unat secs * 1000000000 + unat nanos))"

text \<open>\<open>duration_since(UNIX_EPOCH)\<close> refuses a time before the epoch.\<close>

definition since_epoch :: "system_time \<Rightarrow> duration result" where
  "since_epoch t = (if t < 0 then Err ClockBeforeEpoch else Ok (nat t))"

text \<open>\<open>SystemTime - Duration\<close> panics below the least representable second.\<close>

definition system_time_sub :: "system_time \<Rightarrow> duration \<Rightarrow> system_time result" where
  "system_time_sub t d =
     (if t - int d < - (2 ^ 63 * 1000000000)
      then Panic (Panic_str ''overflow when subtracting duration from instant'')
      else Ok (t - int d))"

text \<open>\<open>SystemTime::checked_add\<close>: nothing past the greatest representable second.\<close>

definition system_time_checked_add :: "system_time \<Rightarrow> duration \<Rightarrow> system_time option" where
  "system_time_checked_add t d =
     (if 2 ^ 63 \<le> (t + int d) div 1000000000 then None else Some (t + int d))"

end
