(* ===== verification/Receive.thy ===== *)
theory Receive
  imports Message Sys_Time
begin

text \<open>
  The decoder of \<open>receive.rs\<close> (\<open>Gelf\<close>): it keeps the chunks of incomplete messages in two
  indices, by message id and by time of arrival, drops what is too old or too much, and
  hands out a message once its last chunk is there. The readings of the clock are
  arguments. A flag \<open>dbg\<close> says whether the build checks arithmetic and assertions.
\<close>

section \<open>Timestamps\<close>

datatype unique_timestamp = UniqueTimestamp (ts_time: duration) (ts_counter: u64)

text \<open>The derived order: by time, then by counter.\<close>

instantiation unique_timestamp :: linorder
begin

definition less_eq_unique_timestamp :: "unique_timestamp \<Rightarrow> unique_timestamp \<Rightarrow> bool" where
  "less_eq_unique_timestamp a b \<longleftrightarrow>
     ts_time a < ts_time b \<or> ts_time a = ts_time b \<and> ts_counter a \<le> ts_counter b"

definition less_unique_timestamp :: "unique_timestamp \<Rightarrow> unique_timestamp \<Rightarrow> bool" where
  "less_unique_timestamp a b \<longleftrightarrow>
     ts_time a < ts_time b \<or> ts_time a = ts_time b \<and> ts_counter a < ts_counter b"

instance
  by intro_classes
    (auto simp: less_eq_unique_timestamp_def less_unique_timestamp_def
      intro: unique_timestamp.expand)

end

definition timestamp_since :: "system_time \<Rightarrow> duration \<Rightarrow> unique_timestamp result" where
  "timestamp_since now since =
     outcome_bind (system_time_sub now since) (\<lambda>t.
     outcome_bind (since_epoch t) (\<lambda>d. Ok (UniqueTimestamp d 0)))"

section \<open>The state of the decoder\<close>

record receive_config =
  incomplete_capacity :: usize
  max_chunks_per_message :: u8
  incomplete_timeout_ms :: u64

definition default_receive_config :: receive_config where
  "default_receive_config =
     \<lparr>incomplete_capacity = 1024, max_chunks_per_message = 128,
      incomplete_timeout_ms = 5 * 1000\<rparr>"

record chunk =
  chunk_seq :: u8
  chunk_bytes :: bytes

record chunks =
  expected_total :: u8
  inner :: "(u8, bytes) btree_map"

record by_arrival =
  counter :: u64
  arrival_chunks :: "(unique_timestamp, u64) btree_map"

record gelf =
  config :: receive_config
  by_id :: "(u64, chunks \<times> unique_timestamp) hash_map"
  by_arrival :: by_arrival

definition new_by_arrival :: by_arrival where
  "new_by_arrival = \<lparr>counter = 0, arrival_chunks = []\<rparr>"

definition new_by_id :: "(u64, chunks \<times> unique_timestamp) hash_map" where
  [simp]: "new_by_id = []"

text \<open>\<open>Gelf::new\<close>, which \<open>build\<close> calls.\<close>

definition gelf_new :: "receive_config \<Rightarrow> gelf" where
  "gelf_new cfg = \<lparr>config = cfg, by_id = new_by_id, by_arrival = new_by_arrival\<rparr>"

text \<open>\<open>ByArrival::ts\<close>: the clock is read first, so a clock error leaves the counter alone.\<close>

definition arrival_ts :: "system_time \<Rightarrow> by_arrival \<Rightarrow> by_arrival \<times> unique_timestamp result" where
  "arrival_ts now a =
     (case since_epoch now of
        Ok d \<Rightarrow> (a\<lparr>counter := counter a + 1\<rparr>, Ok (UniqueTimestamp d (counter a)))
      | Err e \<Rightarrow> (a, Err e)
      | Panic p \<Rightarrow> (a, Panic p))"

definition chunks_new :: "u8 \<Rightarrow> chunk \<Rightarrow> chunks" where
  "chunks_new n c = \<lparr>expected_total = n, inner = bt_insert (chunk_seq c) (chunk_bytes c) []\<rparr>"

definition chunks_insert :: "chunk \<Rightarrow> chunks \<Rightarrow> chunks" where
  "chunks_insert c cs = cs\<lparr>inner := bt_insert (chunk_seq c) (chunk_bytes c) (inner cs)\<rparr>"

definition is_complete :: "chunks \<Rightarrow> bool" where
  "is_complete cs \<longleftrightarrow> unat (expected_total cs) = length (inner cs)"

section \<open>Collecting incomplete messages\<close>

fun remove_all :: "(unique_timestamp \<times> u64) list \<Rightarrow> gelf \<Rightarrow> gelf" where
  "remove_all [] g = g"
| "remove_all ((arrival, i) # rest) g =
     remove_all rest
       (g\<lparr>by_id := hm_remove i (by_id g),
          by_arrival := (by_arrival g)\<lparr>arrival_chunks :=
            bt_remove arrival (arrival_chunks (by_arrival g))\<rparr>\<rparr>)"

definition clear_incomplete :: "gelf \<Rightarrow> gelf" where
  "clear_incomplete g = g\<lparr>by_id := [], by_arrival := (by_arrival g)\<lparr>arrival_chunks := []\<rparr>\<rparr>"

text \<open>
  \<open>Gelf::gc\<close>: at the capacity every incomplete message goes; after that, those that
  arrived before the timeout. A clock error comes after the first part has taken effect.
\<close>

definition gc :: "system_time \<Rightarrow> diag \<Rightarrow> gelf \<Rightarrow> diag \<times> gelf \<times> unit result" where
  "gc now d g =
     (let full = unat (incomplete_capacity (config g)) \<le> length (by_id g);
          d1 = (if full then increment (Receive M_msg_incomplete_chunk_overflow) d else d);
          g1 = (if full then clear_incomplete g else g)
      in case timestamp_since now (from_millis (incomplete_timeout_ms (config g))) of
           Ok since \<Rightarrow>
             (d1, remove_all (bt_below since (arrival_chunks (by_arrival g1))) g1, Ok ())
         | Err e \<Rightarrow> (d1, g1, Err e)
         | Panic p \<Rightarrow> (d1, g1, Panic p))"

section \<open>Pushing a chunk\<close>

text \<open>
  \<open>Gelf::push\<close>: the first chunk of an id opens an entry in both indices; a later one must
  agree on the number of chunks, and the one that completes the message removes the entry
  from both and yields the chunks in order.
\<close>

definition push ::
  "system_time \<Rightarrow> diag \<Rightarrow> gelf \<Rightarrow> chunk_header \<Rightarrow> chunk \<Rightarrow>
   diag \<times> gelf \<times> message option result" where
  "push now d g header c =
     (case hm_get (by_id g) (header_id header) of
        None \<Rightarrow>
          (case arrival_ts now (by_arrival g) of
             (a, Ok ts) \<Rightarrow>
               (d,
                g\<lparr>by_arrival := a\<lparr>arrival_chunks :=
                    bt_insert ts (header_id header) (arrival_chunks a)\<rparr>,
                  by_id := hm_insert (header_id header)
                    (chunks_new (seq_count header) c, ts) (by_id g)\<rparr>,
                Ok None)
           | (a, Err e) \<Rightarrow> (d, g\<lparr>by_arrival := a\<rparr>, Err e)
           | (a, Panic p) \<Rightarrow> (d, g\<lparr>by_arrival := a\<rparr>, Panic p))
      | Some (cs, arrival) \<Rightarrow>
          if expected_total cs \<noteq> seq_count header
          then (d, g, Err (InconsistentTotal (seq_count header) (expected_total cs)))
          else
            (let cs' = chunks_insert c cs
             in if is_complete cs'
                then
                  (increment (Receive M_msg_chunked) d,
                   g\<lparr>by_id := hm_remove (header_id header) (by_id g),
                     by_arrival := (by_arrival g)\<lparr>arrival_chunks :=
                       bt_remove arrival (arrival_chunks (by_arrival g))\<rparr>\<rparr>,
                   Ok (chunked_message (bt_values (inner cs'))))
                else
                  (d, g\<lparr>by_id := hm_insert (header_id header) (cs', arrival) (by_id g)\<rparr>,
                   Ok None)))"

section \<open>Decoding a datagram\<close>

text \<open>The two readings of the clock that a datagram can cause: in \<open>gc\<close> and in \<open>ts\<close>.\<close>

record clock =
  clock_gc :: system_time
  clock_ts :: system_time

definition chunked ::
  "bool \<Rightarrow> clock \<Rightarrow> diag \<Rightarrow> gelf \<Rightarrow> bytes \<Rightarrow> diag \<times> gelf \<times> message option result" where
  "chunked dbg clk d g src =
     (case gc (clock_gc clk) d g of
        (d, g, Err e) \<Rightarrow> (d, g, Err e)
      | (d, g, Panic p) \<Rightarrow> (d, g, Panic p)
      | (d, g, Ok _) \<Rightarrow>
          (case chunk_header_get dbg src of
             (src, Err e) \<Rightarrow> (d, g, Err e)
           | (src, Panic p) \<Rightarrow> (d, g, Panic p)
           | (src, Ok header) \<Rightarrow>
               if seq_num header = 0 \<and> seq_count header = 1
               then (d, g, single dbg (Option.bind (peek_magic_bytes src) detect) src)
               else if max_chunks_per_message (config g) < seq_count header
               then (d, g, Err (TooManyChunks (seq_count header)
                 (max_chunks_per_message (config g))))
               else push (clock_ts clk) d g header
                 \<lparr>chunk_seq = seq_num header, chunk_bytes = src\<rparr>))"

definition decode ::
  "bool \<Rightarrow> clock \<Rightarrow> diag \<Rightarrow> gelf \<Rightarrow> bytes \<Rightarrow> diag \<times> gelf \<times> message option result" where
  "decode dbg clk d g src =
     (let magic = peek_magic_bytes src
      in if magic = Some MAGIC_CHUNKED
         then chunked dbg clk (increment (Receive M_chunk) d) g src
         else (increment (Receive M_msg_unchunked) d, g,
               single dbg (Option.bind magic detect) src))"

end
