(* ===== verification/Receive_Inv.thy ===== *)
theory Receive_Inv
  imports Receive
begin

text \<open>
  The invariant of the decoder: the two indices name the same incomplete messages, every
  entry holds only chunks below its expected number and is not complete, and no timestamp
  of an entry carries the value the counter has now. Every operation keeps it.
\<close>

section \<open>The invariant\<close>

abbreviation arrivals :: "gelf \<Rightarrow> (unique_timestamp, u64) btree_map" where
  "arrivals g \<equiv> arrival_chunks (by_arrival g)"

definition chunks_wf :: "receive_config \<Rightarrow> chunks \<Rightarrow> bool" where
  "chunks_wf cfg cs \<longleftrightarrow>
     bt_wf (inner cs) \<and> (\<forall>k \<in> fst ` set (inner cs). k < expected_total cs) \<and>
     \<not> is_complete cs \<and> expected_total cs \<le> max_chunks_per_message cfg"

definition indices_agree :: "gelf \<Rightarrow> bool" where
  "indices_agree g \<longleftrightarrow>
     (\<forall>i cs ts. hm_get (by_id g) i = Some (cs, ts) \<longrightarrow> bt_get (arrivals g) ts = Some i) \<and>
     (\<forall>ts i. bt_get (arrivals g) ts = Some i \<longrightarrow> (\<exists>cs. hm_get (by_id g) i = Some (cs, ts)))"

definition gelf_inv :: "gelf \<Rightarrow> bool" where
  "gelf_inv g \<longleftrightarrow>
     hm_wf (by_id g) \<and> bt_wf (arrivals g) \<and> indices_agree g \<and>
     (\<forall>i cs ts. hm_get (by_id g) i = Some (cs, ts) \<longrightarrow> chunks_wf (config g) cs) \<and>
     (\<forall>ts i. bt_get (arrivals g) ts = Some i \<longrightarrow> ts_counter ts < counter (by_arrival g))"

text \<open>The number of incomplete messages stays within the configured capacity.\<close>

definition within_capacity :: "gelf \<Rightarrow> bool" where
  "within_capacity g \<longleftrightarrow>
     length (by_id g) \<le> max 1 (unat (incomplete_capacity (config g)))"

lemma gelf_invD:
  assumes "gelf_inv g"
  shows "hm_wf (by_id g)" "bt_wf (arrivals g)"
    and "hm_get (by_id g) i = Some (cs, ts) \<Longrightarrow> bt_get (arrivals g) ts = Some i"
    and "bt_get (arrivals g) ts = Some i \<Longrightarrow> \<exists>cs. hm_get (by_id g) i = Some (cs, ts)"
    and "hm_get (by_id g) i = Some (cs, ts) \<Longrightarrow> chunks_wf (config g) cs"
    and "bt_get (arrivals g) ts = Some i \<Longrightarrow> ts_counter ts < counter (by_arrival g)"
  using assms unfolding gelf_inv_def indices_agree_def by blast+

lemma indices_agreeI:
  assumes "\<And>i cs ts. hm_get (by_id g) i = Some (cs, ts) \<Longrightarrow> bt_get (arrivals g) ts = Some i"
    and "\<And>ts i. bt_get (arrivals g) ts = Some i \<Longrightarrow> \<exists>cs. hm_get (by_id g) i = Some (cs, ts)"
  shows "indices_agree g"
  using assms by (auto simp: indices_agree_def)

lemma gelf_inv_new: "gelf_inv (gelf_new cfg)"
  by (simp add: gelf_inv_def indices_agree_def gelf_new_def new_by_arrival_def map_simps
      wf_intros)

section \<open>Chunks of one message\<close>

lemma inj_unat: "inj (unat :: 'a::len word \<Rightarrow> nat)"
  by (simp add: inj_def word_unat_eq_iff)

lemma bt_get_key: "bt_get m k = Some v \<Longrightarrow> k \<in> fst ` set m"
  by (metis bt_get_def domI dom_map_of_conv_image_fst)

lemma bt_get_in_set: "bt_wf m \<Longrightarrow> bt_get m k = Some v \<longleftrightarrow> (k, v) \<in> set m"
  by (simp add: bt_get_def bt_wf_distinct)

text \<open>
  A strictly ascending list of numbers below its own length is the list of all of them, so
  counting the chunks is as good as looking for each.
\<close>

lemma ascending_below_length:
  assumes "sorted_wrt (<) (xs :: u8 list)" and "length xs = unat n" and "\<forall>x \<in> set xs. x < n"
  shows "map unat xs = [0..<unat n]"
proof -
  have sorted: "sorted_wrt (<) (map unat xs)"
    using assms(1) by (auto simp: sorted_wrt_map word_less_nat_alt elim: sorted_wrt_mono_rel [rotated])
  moreover have "set (map unat xs) \<subseteq> {0..<unat n}"
    using assms(3) by (auto simp: word_less_nat_alt)
  moreover have "card (set (map unat xs)) = card {0..<unat n}"
    using sorted assms(2) by (simp add: distinct_card strict_sorted_iff del: set_map)
  ultimately have "set (map unat xs) = set [0..<unat n]"
    by (metis card_subset_eq finite_atLeastLessThan set_upt)
  with sorted show ?thesis
    by (metis sorted_distinct_set_unique sorted_upt distinct_upt strict_sorted_iff)
qed

lemma length_keys_le:
  assumes "bt_wf m" and "\<forall>k \<in> fst ` set m. k < (n :: u8)"
  shows "length m \<le> unat n"
proof -
  have "unat ` fst ` set m \<subseteq> {..<unat n}"
    using assms(2) by (auto simp: word_less_nat_alt)
  moreover have "card (unat ` fst ` set m) = length m"
    using bt_wf_distinct [OF assms(1)]
    by (metis card_image distinct_card inj_on_def length_map list.set_map word_unat_eq_iff)
  ultimately show ?thesis
    by (metis card_lessThan card_mono finite_lessThan)
qed

lemma complete_chunks:
  assumes wf: "bt_wf (inner cs)" and keys: "\<forall>k \<in> fst ` set (inner cs). k < expected_total cs"
  shows "is_complete cs \<longleftrightarrow> (\<forall>k < expected_total cs. bt_get (inner cs) k \<noteq> None)"
proof
  assume "is_complete cs"
  then have "map unat (map fst (inner cs)) = [0..<unat (expected_total cs)]"
    using wf keys by (intro ascending_below_length) (auto simp: bt_wf_def is_complete_def)
  then have keys': "unat ` fst ` set (inner cs) = {..<unat (expected_total cs)}"
    by (metis atLeast_upt list.set_map)
  show "\<forall>k < expected_total cs. bt_get (inner cs) k \<noteq> None"
  proof (intro allI impI)
    fix k
    assume "k < expected_total cs"
    with keys' have "unat k \<in> unat ` fst ` set (inner cs)"
      by (simp add: word_less_nat_alt)
    then have "k \<in> fst ` set (inner cs)"
      by (simp add: inj_image_mem_iff [OF inj_unat])
    then show "bt_get (inner cs) k \<noteq> None"
      by (simp add: bt_get_def map_of_eq_None_iff)
  qed
next
  assume all: "\<forall>k < expected_total cs. bt_get (inner cs) k \<noteq> None"
  have "{..<unat (expected_total cs)} \<subseteq> unat ` fst ` set (inner cs)"
  proof
    fix j
    assume "j \<in> {..<unat (expected_total cs)}"
    then have j: "(of_nat j :: u8) < expected_total cs \<and> unat (of_nat j :: u8) = j"
      using unat_u8_less [of "expected_total cs"]
      by (simp add: word_less_nat_alt unat_of_nat)
    with all obtain v where "bt_get (inner cs) (of_nat j) = Some v"
      by blast
    with j show "j \<in> unat ` fst ` set (inner cs)"
      by (metis bt_get_key imageI)
  qed
  then have "unat (expected_total cs) \<le> card (unat ` fst ` set (inner cs))"
    by (metis card_lessThan card_mono finite_imageI finite_set)
  also have "\<dots> \<le> length (inner cs)"
    by (metis card_length image_image length_map list.set_map)
  finally show "is_complete cs"
    using length_keys_le [OF wf keys] by (simp add: is_complete_def)
qed

text \<open>The values of a complete message are those at 0, 1, 2 and so on.\<close>

lemma complete_values:
  assumes "bt_wf (inner cs)" and "\<forall>k \<in> fst ` set (inner cs). k < expected_total cs"
    and "is_complete cs"
  shows "bt_values (inner cs) =
    map (\<lambda>j. the (bt_get (inner cs) (of_nat j))) [0..<unat (expected_total cs)]"
proof -
  have keys: "map unat (map fst (inner cs)) = [0..<unat (expected_total cs)]"
    using assms by (intro ascending_below_length) (auto simp: bt_wf_def is_complete_def)
  have "bt_values (inner cs) = map (\<lambda>e. the (bt_get (inner cs) (fst e))) (inner cs)"
    using bt_wf_distinct [OF assms(1)] by (auto simp: bt_values_def bt_get_def)
  also have "\<dots> = map (\<lambda>j. the (bt_get (inner cs) (of_nat j))) (map unat (map fst (inner cs)))"
    by simp
  finally show ?thesis
    by (simp only: keys)
qed

section \<open>Removing entries\<close>

lemma remove_all_frame [simp]:
  "config (remove_all xs g) = config g"
  "counter (by_arrival (remove_all xs g)) = counter (by_arrival g)"
  by (induction xs g rule: remove_all.induct) simp_all

lemma remove_all_by_id:
  "hm_wf (by_id g) \<Longrightarrow> hm_wf (by_id (remove_all xs g)) \<and>
   hm_get (by_id (remove_all xs g)) i =
     (if i \<in> snd ` set xs then None else hm_get (by_id g) i)"
  by (induction xs g rule: remove_all.induct) (auto simp: map_simps wf_intros)

lemma remove_all_arrivals:
  "bt_wf (arrivals g) \<Longrightarrow> bt_wf (arrivals (remove_all xs g)) \<and>
   bt_get (arrivals (remove_all xs g)) ts =
     (if ts \<in> fst ` set xs then None else bt_get (arrivals g) ts)"
  by (induction xs g rule: remove_all.induct) (auto simp: map_simps wf_intros)

lemma set_bt_below: "bt_wf m \<Longrightarrow> set (bt_below k m) = {e \<in> set m. fst e < k}"
  by (induction m) (auto simp: bt_below_def bt_wf_Cons split: if_splits)

lemma in_bt_below:
  "bt_wf m \<Longrightarrow> (ts, i) \<in> set (bt_below k m) \<longleftrightarrow> bt_get m ts = Some i \<and> ts < k"
  by (auto simp: set_bt_below bt_get_in_set)

lemma snd_image_iff: "i \<in> snd ` S \<longleftrightarrow> (\<exists>t. (t, i) \<in> S)"
  by force

lemma fst_image_iff: "t \<in> fst ` S \<longleftrightarrow> (\<exists>i. (t, i) \<in> S)"
  by force

text \<open>Removing what arrived before a moment looks at the time of each entry only.\<close>

abbreviation expire :: "unique_timestamp \<Rightarrow> gelf \<Rightarrow> gelf" where
  "expire since g \<equiv> remove_all (bt_below since (arrivals g)) g"

lemma expired_iff:
  assumes "gelf_inv g" "hm_get (by_id g) i = Some (cs, ts)"
  shows "i \<in> snd ` set (bt_below since (arrivals g)) \<longleftrightarrow> ts < since"
proof -
  note inv = gelf_invD [OF assms(1)]
  have "ts' = ts" if "bt_get (arrivals g) ts' = Some i" for ts'
    using inv(4) [OF that] assms(2) by auto
  moreover have "bt_get (arrivals g) ts = Some i"
    using inv(3) assms(2) .
  ultimately show ?thesis
    unfolding snd_image_iff in_bt_below [OF inv(2)] by blast
qed

lemma expire_by_id:
  assumes "gelf_inv g"
  shows "hm_get (by_id (expire since g)) i =
    (case hm_get (by_id g) i of
       None \<Rightarrow> None
     | Some (cs, ts) \<Rightarrow> if ts < since then None else Some (cs, ts))"
  using remove_all_by_id [OF gelf_invD(1) [OF assms]] expired_iff [OF assms]
  by (auto split: option.splits)

lemma expire_arrivals:
  assumes "gelf_inv g"
  shows "bt_get (arrivals (expire since g)) ts =
    (if ts < since then None else bt_get (arrivals g) ts)"
proof -
  note wf = gelf_invD(2) [OF assms]
  have "ts \<in> fst ` set (bt_below since (arrivals g)) \<longleftrightarrow>
      ts < since \<and> bt_get (arrivals g) ts \<noteq> None"
    by (auto simp: fst_image_iff in_bt_below [OF wf])
  then show ?thesis
    by (simp add: remove_all_arrivals [OF wf])
qed

lemma gelf_inv_expire:
  assumes "gelf_inv g"
  shows "gelf_inv (expire since g)"
proof -
  note inv = gelf_invD [OF assms]
  have "indices_agree (expire since g)"
    unfolding indices_agree_def expire_by_id [OF assms] expire_arrivals [OF assms]
    using inv(3,4) by (fastforce split: option.splits if_splits)
  moreover have "chunks_wf (config g) cs"
    if "hm_get (by_id (expire since g)) i = Some (cs, ts)" for i cs ts
    using that inv(5) by (auto simp: expire_by_id [OF assms] split: option.splits if_splits)
  moreover have "ts_counter ts < counter (by_arrival g)"
    if "bt_get (arrivals (expire since g)) ts = Some i" for ts i
    using that inv(6) by (simp add: expire_arrivals [OF assms] split: if_splits)
  ultimately show ?thesis
    using remove_all_by_id [OF inv(1)] remove_all_arrivals [OF inv(2)]
    unfolding gelf_inv_def by simp
qed

lemma clear_incomplete_simps [simp]:
  "by_id (clear_incomplete g) = []"
  "arrivals (clear_incomplete g) = []"
  "config (clear_incomplete g) = config g"
  "counter (by_arrival (clear_incomplete g)) = counter (by_arrival g)"
  by (simp_all add: clear_incomplete_def)

lemma gelf_inv_clear: "gelf_inv (clear_incomplete g)"
  by (simp add: gelf_inv_def indices_agree_def map_simps wf_intros)

lemma length_expire: "gelf_inv g \<Longrightarrow> length (by_id (expire since g)) \<le> length (by_id g)"
proof -
  assume inv: "gelf_inv g"
  then have wf: "hm_wf (by_id g)" "hm_wf (by_id (expire since g))"
    using gelf_invD(1) gelf_inv_expire by blast+
  have "dom (hm_get (by_id (expire since g))) \<subseteq> dom (hm_get (by_id g))"
    by (auto simp: expire_by_id [OF inv] split: option.splits if_splits)
  then show ?thesis
    by (simp add: hm.len_card wf hm.finite_dom card_mono)
qed

section \<open>The operations keep the invariant\<close>

lemma gc_cases:
  assumes "gc now d g = (d', g', r)"
  obtains (kept) since where "r = Ok ()"
      "timestamp_since now (from_millis (incomplete_timeout_ms (config g))) = Ok since"
      "length (by_id g) < unat (incomplete_capacity (config g))" "g' = expire since g" "d' = d"
  | (dropped) since where "r = Ok ()"
      "timestamp_since now (from_millis (incomplete_timeout_ms (config g))) = Ok since"
      "unat (incomplete_capacity (config g)) \<le> length (by_id g)" "g' = clear_incomplete g"
      "d' = increment (Receive M_msg_incomplete_chunk_overflow) d"
  | (failed) "r \<noteq> Ok ()" "g' = g \<or> g' = clear_incomplete g"
  using assms
  by (cases "timestamp_since now (from_millis (incomplete_timeout_ms (config g)))")
    (auto simp: gc_def Let_def bt_below_def split: if_splits)

lemma gelf_inv_gc: "gelf_inv g \<Longrightarrow> gc now d g = (d', g', r) \<Longrightarrow> gelf_inv g'"
  by (erule gc_cases) (auto intro: gelf_inv_expire gelf_inv_clear)

lemma gc_frame:
  "gc now d g = (d', g', r) \<Longrightarrow> config g' = config g \<and>
   counter (by_arrival g') = counter (by_arrival g) \<and> level_cell d' = level_cell d"
  by (auto simp: gc_def Let_def split: if_splits outcome.splits)

text \<open>After a collection there is room for one more message.\<close>

lemma gc_room:
  "gelf_inv g \<Longrightarrow> gc now d g = (d', g', Ok ()) \<Longrightarrow>
   length (by_id g') < max 1 (unat (incomplete_capacity (config g')))"
  by (erule gc_cases) (auto simp: less_le_trans le_less_trans [OF length_expire])

text \<open>A chunk that may be pushed: what \<open>chunked\<close> has checked by then.\<close>

definition pushable :: "receive_config \<Rightarrow> chunk_header \<Rightarrow> chunk \<Rightarrow> bool" where
  "pushable cfg h c \<longleftrightarrow>
     chunk_seq c = seq_num h \<and> seq_num h < seq_count h \<and> seq_count h \<noteq> 1 \<and>
     seq_count h \<le> max_chunks_per_message cfg"

text \<open>The state after the first chunk of a message, after its last, and in between.\<close>

definition open_entry :: "unique_timestamp \<Rightarrow> u64 \<Rightarrow> chunks \<Rightarrow> gelf \<Rightarrow> gelf" where
  "open_entry ts i cs g =
     g\<lparr>by_arrival := \<lparr>counter = counter (by_arrival g) + 1,
         arrival_chunks = bt_insert ts i (arrivals g)\<rparr>,
       by_id := hm_insert i (cs, ts) (by_id g)\<rparr>"

definition close_entry :: "unique_timestamp \<Rightarrow> u64 \<Rightarrow> gelf \<Rightarrow> gelf" where
  "close_entry ts i g =
     g\<lparr>by_id := hm_remove i (by_id g),
       by_arrival := (by_arrival g)\<lparr>arrival_chunks := bt_remove ts (arrivals g)\<rparr>\<rparr>"

definition update_entry :: "unique_timestamp \<Rightarrow> u64 \<Rightarrow> chunks \<Rightarrow> gelf \<Rightarrow> gelf" where
  "update_entry ts i cs g = g\<lparr>by_id := hm_insert i (cs, ts) (by_id g)\<rparr>"

lemmas entry_defs = open_entry_def close_entry_def update_entry_def

lemma push_cases:
  assumes "push now d g h c = (d', g', r)"
  obtains (opened) ts where "hm_get (by_id g) (header_id h) = None" "0 \<le> now"
      "ts = UniqueTimestamp (nat now) (counter (by_arrival g))"
      "g' = open_entry ts (header_id h) (chunks_new (seq_count h) c) g" "d' = d" "r = Ok None"
  | (clock) "hm_get (by_id g) (header_id h) = None" "now < 0" "g' = g" "d' = d"
      "r = Err ClockBeforeEpoch"
  | (mismatch) cs ts where "hm_get (by_id g) (header_id h) = Some (cs, ts)"
      "expected_total cs \<noteq> seq_count h" "g' = g" "d' = d"
      "r = Err (InconsistentTotal (seq_count h) (expected_total cs))"
  | (completed) cs ts where "hm_get (by_id g) (header_id h) = Some (cs, ts)"
      "expected_total cs = seq_count h" "is_complete (chunks_insert c cs)"
      "g' = close_entry ts (header_id h) g" "d' = increment (Receive M_msg_chunked) d"
      "r = Ok (chunked_message (bt_values (inner (chunks_insert c cs))))"
  | (added) cs ts where "hm_get (by_id g) (header_id h) = Some (cs, ts)"
      "expected_total cs = seq_count h" "\<not> is_complete (chunks_insert c cs)"
      "g' = update_entry ts (header_id h) (chunks_insert c cs) g" "d' = d" "r = Ok None"
  using assms
  by (cases "hm_get (by_id g) (header_id h)")
    (auto simp: push_def arrival_ts_def since_epoch_def Let_def entry_defs split: if_splits)

lemma chunks_new_wf:
  assumes "pushable cfg h c"
  shows "chunks_wf cfg (chunks_new (seq_count h) c)"
  using assms by (auto simp: pushable_def chunks_wf_def chunks_new_def is_complete_def bt_wf_def
      unat_eq_Suc_0_iff)

lemma chunks_insert_keys:
  assumes "chunks_wf cfg cs" "pushable cfg h c" "expected_total cs = seq_count h"
  shows "bt_wf (inner (chunks_insert c cs))"
    and "\<forall>k \<in> fst ` set (inner (chunks_insert c cs)). k < expected_total (chunks_insert c cs)"
  using assms
  by (auto simp: pushable_def chunks_wf_def chunks_insert_def set_bt_insert_keys wf_intros)

lemma gelf_inv_open:
  assumes inv: "gelf_inv g" and fresh: "hm_get (by_id g) i = None"
    and cs: "chunks_wf (config g) cs" and cnt: "counter (by_arrival g) \<noteq> - 1"
  shows "gelf_inv (open_entry (UniqueTimestamp t (counter (by_arrival g))) i cs g)"
proof -
  note D = gelf_invD [OF inv]
  let ?ts = "UniqueTimestamp t (counter (by_arrival g))"
  let ?g = "open_entry ?ts i cs g"
  have next_counter: "counter (by_arrival g) < counter (by_arrival g) + 1"
    using cnt by (rule u64_less_succ)
  have new_ts: "bt_get (arrivals g) ?ts = None"
    using D(6) [of ?ts] by (cases "bt_get (arrivals g) ?ts") auto
  have get_id: "hm_get (by_id ?g) j = (if j = i then Some (cs, ?ts) else hm_get (by_id g) j)" for j
    using D(1) by (simp add: open_entry_def map_simps)
  have get_ts: "bt_get (arrivals ?g) ts = (if ts = ?ts then Some i else bt_get (arrivals g) ts)" for ts
    using D(2) by (simp add: open_entry_def map_simps)
  have "indices_agree ?g"
    by (rule indices_agreeI)
      (use D(3,4) fresh new_ts in \<open>force simp: get_id get_ts split: if_splits\<close>)+
  moreover have "ts_counter ts < counter (by_arrival g) + 1"
    if "bt_get (arrivals ?g) ts = Some j" for ts j
    using that D(6) [of ts j] next_counter by (auto simp: get_ts split: if_splits)
  moreover have "chunks_wf (config g) cs'" if "hm_get (by_id ?g) j = Some (cs', ts)" for j cs' ts
    using that D(5) cs by (auto simp: get_id split: if_splits)
  ultimately show ?thesis
    using D(1,2) unfolding gelf_inv_def by (simp add: open_entry_def wf_intros)
qed

lemma gelf_inv_close:
  assumes inv: "gelf_inv g" and entry: "hm_get (by_id g) i = Some (cs, ts)"
  shows "gelf_inv (close_entry ts i g)"
proof -
  note D = gelf_invD [OF inv]
  let ?g = "close_entry ts i g"
  have get_id: "hm_get (by_id ?g) j = (if j = i then None else hm_get (by_id g) j)" for j
    using D(1) by (simp add: close_entry_def map_simps)
  have get_ts: "bt_get (arrivals ?g) t = (if t = ts then None else bt_get (arrivals g) t)" for t
    using D(2) by (simp add: close_entry_def map_simps)
  have "indices_agree ?g"
    by (rule indices_agreeI)
      (use D(3,4) D(3) [OF entry] entry in \<open>fastforce simp: get_id get_ts split: if_splits\<close>)+
  moreover have "ts_counter t < counter (by_arrival g)"
    if "bt_get (arrivals ?g) t = Some j" for t j
    using that D(6) by (auto simp: get_ts split: if_splits)
  moreover have "chunks_wf (config g) cs'" if "hm_get (by_id ?g) j = Some (cs', t)" for j cs' t
    using that D(5) by (auto simp: get_id split: if_splits)
  ultimately show ?thesis
    using D(1,2) unfolding gelf_inv_def by (simp add: close_entry_def wf_intros)
qed

lemma gelf_inv_update:
  assumes inv: "gelf_inv g" and entry: "hm_get (by_id g) i = Some (cs, ts)"
    and cs': "chunks_wf (config g) cs'"
  shows "gelf_inv (update_entry ts i cs' g)"
proof -
  note D = gelf_invD [OF inv]
  let ?g = "update_entry ts i cs' g"
  have get_id: "hm_get (by_id ?g) j = (if j = i then Some (cs', ts) else hm_get (by_id g) j)" for j
    using D(1) by (simp add: update_entry_def map_simps)
  have arr: "arrivals ?g = arrivals g"
    by (simp add: update_entry_def)
  have "indices_agree ?g"
    by (rule indices_agreeI)
      (use D(3,4) D(3) [OF entry] entry in \<open>force simp: get_id arr split: if_splits\<close>)+
  moreover have "chunks_wf (config g) c" if "hm_get (by_id ?g) j = Some (c, t)" for j c t
    using that D(5) cs' by (auto simp: get_id split: if_splits)
  ultimately show ?thesis
    using D(1,2,6) unfolding gelf_inv_def by (simp add: update_entry_def wf_intros)
qed

lemma gelf_inv_push:
  assumes inv: "gelf_inv g" and c: "pushable (config g) h c"
    and cnt: "counter (by_arrival g) \<noteq> - 1" and run: "push now d g h c = (d', g', r)"
  shows "gelf_inv g'"
  using run
proof (cases rule: push_cases)
  case (opened ts)
  then show ?thesis
    using gelf_inv_open [OF inv _ chunks_new_wf [OF c] cnt] by simp
next
  case (completed cs ts)
  then show ?thesis
    using gelf_inv_close [OF inv] by simp
next
  case (added cs ts)
  have "chunks_wf (config g) cs"
    using gelf_invD(5) [OF inv] added(1) .
  then have "chunks_wf (config g) (chunks_insert c cs)"
    using chunks_insert_keys [OF _ c added(2)] added(2,3)
    by (auto simp: chunks_wf_def chunks_insert_def)
  then show ?thesis
    using gelf_inv_update [OF inv added(1)] added(4) by simp
qed (use inv in auto)

section \<open>The two indices have the same size\<close>

lemma indices_same_length:
  assumes inv: "gelf_inv g"
  shows "length (by_id g) = length (arrivals g)"
proof -
  note D = gelf_invD [OF inv]
  let ?f = "\<lambda>i. snd (the (hm_get (by_id g) i))"
  have "bij_betw ?f (dom (hm_get (by_id g))) (dom (bt_get (arrivals g)))"
    unfolding bij_betw_def
  proof
    show "inj_on ?f (dom (hm_get (by_id g)))"
      by (rule inj_onI) (auto, metis D(3) option.inject)
    show "?f ` dom (hm_get (by_id g)) = dom (bt_get (arrivals g))"
    proof
      show "?f ` dom (hm_get (by_id g)) \<subseteq> dom (bt_get (arrivals g))"
        using D(3) by force
      show "dom (bt_get (arrivals g)) \<subseteq> ?f ` dom (hm_get (by_id g))"
      proof
        fix ts
        assume "ts \<in> dom (bt_get (arrivals g))"
        then obtain i cs where "hm_get (by_id g) i = Some (cs, ts)"
          using D(4) by blast
        then show "ts \<in> ?f ` dom (hm_get (by_id g))"
          by (force simp: image_def)
      qed
    qed
  qed
  then show ?thesis
    using D(1,2) by (simp add: hm.len_card bt.len_card bij_betw_same_card)
qed

end
