(* ===== verification/Receive_Spec.thy ===== *)
theory Receive_Spec
  imports Receive_Inv
begin

text \<open>
  What the decoder promises, and that it keeps the promise: the invariant and the capacity
  hold after every datagram, the only panics are named, and the two-index state refines a
  plain map from message ids to the parts that have arrived (an abstract machine that looks
  for every part instead of counting and filters by age instead of keeping an index).
\<close>

section \<open>Decoding keeps the invariant\<close>

lemma chunked_cases:
  assumes "chunked dbg clk d g src = (d', g', r)"
  obtains (gc_failed) r0 where "gc (clock_gc clk) d g = (d', g', r0)" "r0 \<noteq> Ok ()"
      "r = outcome_bind r0 (\<lambda>_. Ok None)"
  | (bad_header) rest r0 where "gc (clock_gc clk) d g = (d', g', Ok ())"
      "chunk_header_get dbg src = (rest, r0)" "\<forall>h. r0 \<noteq> Ok h"
      "r = outcome_bind r0 (\<lambda>_. Ok None)"
  | (alone) payload h where "gc (clock_gc clk) d g = (d', g', Ok ())"
      "chunk_header_get dbg src = (payload, Ok h)" "seq_num h = 0" "seq_count h = 1"
      "r = single dbg (Option.bind (peek_magic_bytes payload) detect) payload"
  | (too_many) payload h where "gc (clock_gc clk) d g = (d', g', Ok ())"
      "chunk_header_get dbg src = (payload, Ok h)" "seq_count h \<noteq> 1"
      "max_chunks_per_message (config g') < seq_count h"
      "r = Err (TooManyChunks (seq_count h) (max_chunks_per_message (config g')))"
  | (pushed) d1 g1 payload h c where "gc (clock_gc clk) d g = (d1, g1, Ok ())"
      "chunk_header_get dbg src = (payload, Ok h)"
      "c = \<lparr>chunk_seq = seq_num h, chunk_bytes = payload\<rparr>" "pushable (config g1) h c"
      "push (clock_ts clk) d1 g1 h c = (d', g', r)"
proof -
  obtain d1 g1 r1 where gc: "gc (clock_gc clk) d g = (d1, g1, r1)"
    by (metis prod_cases3)
  obtain rest r2 where hd: "chunk_header_get dbg src = (rest, r2)"
    by (metis surj_pair)
  show ?thesis
  proof (cases r1)
    case (Ok u)
    show ?thesis
    proof (cases r2)
      case ok: (Ok h)
      have lt: "seq_num h < seq_count h"
        using chunk_header_get_OkD(1) hd ok by blast
      then have one: "seq_num h = 0" if "seq_count h = 1"
        using that by (simp add: word_less_1)
      consider "seq_num h = 0 \<and> seq_count h = 1"
        | "seq_count h \<noteq> 1" "max_chunks_per_message (config g1) < seq_count h"
        | "seq_count h \<noteq> 1" "\<not> max_chunks_per_message (config g1) < seq_count h"
        using one by fastforce
      then show ?thesis
        using assms gc hd ok \<open>r1 = Ok u\<close> lt alone too_many pushed
        by cases (auto simp: chunked_def pushable_def linorder_not_less [symmetric])
    qed (use assms gc hd Ok bad_header in \<open>auto simp: chunked_def\<close>)
  qed (use assms gc gc_failed in \<open>auto simp: chunked_def\<close>)
qed

lemma gelf_inv_chunked:
  assumes inv: "gelf_inv g" and cnt: "counter (by_arrival g) \<noteq> - 1"
    and run: "chunked dbg clk d g src = (d', g', r)"
  shows "gelf_inv g'"
  using run
proof (cases rule: chunked_cases)
  case (pushed d1 g1 payload h c)
  then have "gelf_inv g1" "counter (by_arrival g1) \<noteq> - 1"
    using gelf_inv_gc [OF inv] gc_frame cnt by (metis, metis)
  then show ?thesis
    using gelf_inv_push pushed by blast
qed (use gelf_inv_gc [OF inv] in auto)

lemma gelf_inv_decode:
  assumes "gelf_inv g" and "counter (by_arrival g) \<noteq> - 1"
    and "decode dbg clk d g src = (d', g', r)"
  shows "gelf_inv g'"
  using assms gelf_inv_chunked by (auto simp: decode_def Let_def split: if_splits)

section \<open>What does not change\<close>

lemma push_frame:
  assumes "push now d g h c = (d', g', r)"
  shows "config g' = config g" "level_cell d' = level_cell d"
    and "counter (by_arrival g') = counter (by_arrival g) \<or>
      counter (by_arrival g') = counter (by_arrival g) + 1"
  using assms by (cases rule: push_cases; auto simp: entry_defs)+

lemma chunked_frame:
  assumes "chunked dbg clk d g src = (d', g', r)"
  shows "config g' = config g \<and> level_cell d' = level_cell d \<and>
    (counter (by_arrival g') = counter (by_arrival g) \<or>
     counter (by_arrival g') = counter (by_arrival g) + 1)"
  using assms
proof (cases rule: chunked_cases)
  case (pushed d1 g1 payload h c)
  then show ?thesis
    using gc_frame push_frame by metis
qed (auto dest: gc_frame)

lemma decode_frame:
  assumes "decode dbg clk d g src = (d', g', r)"
  shows "config g' = config g" "level_cell d' = level_cell d"
    and "counter (by_arrival g') = counter (by_arrival g) \<or>
      counter (by_arrival g') = counter (by_arrival g) + 1"
  using assms chunked_frame by (auto simp: decode_def Let_def split: if_splits)

section \<open>Capacity\<close>

lemma within_capacity_push:
  assumes inv: "gelf_inv g" and run: "push now d g h c = (d', g', r)"
    and room: "length (by_id g) < max 1 (unat (incomplete_capacity (config g)))"
  shows "within_capacity g'"
  using run
proof (cases rule: push_cases)
  case (opened ts)
  then show ?thesis
    using room gelf_invD(1) [OF inv] by (simp add: within_capacity_def open_entry_def hm.len_insert)
next
  case (completed cs ts)
  then show ?thesis
    using room gelf_invD(1) [OF inv]
    by (simp add: within_capacity_def close_entry_def hm.len_remove)
next
  case (added cs ts)
  then show ?thesis
    using room gelf_invD(1) [OF inv]
    by (simp add: within_capacity_def update_entry_def hm.len_insert)
qed (use room in \<open>auto simp: within_capacity_def\<close>)

lemma within_capacity_gc:
  assumes inv: "gelf_inv g" and cap: "within_capacity g" and run: "gc now d g = (d', g', r)"
  shows "within_capacity g'"
  using run
proof (cases rule: gc_cases)
  case (kept since)
  then show ?thesis
    using cap le_trans [OF length_expire [OF inv, of since]] by (simp add: within_capacity_def)
qed (use cap in \<open>auto simp: within_capacity_def\<close>)

lemma within_capacity_chunked:
  assumes inv: "gelf_inv g" and cap: "within_capacity g"
    and run: "chunked dbg clk d g src = (d', g', r)"
  shows "within_capacity g'"
  using run
proof (cases rule: chunked_cases)
  case (pushed d1 g1 payload h c)
  then show ?thesis
    using gc_room [OF inv pushed(1)] gelf_inv_gc [OF inv pushed(1)]
    by (intro within_capacity_push [OF _ pushed(5)]) auto
qed (use within_capacity_gc [OF inv cap] in auto)

lemma within_capacity_decode:
  assumes "gelf_inv g" "within_capacity g" "decode dbg clk d g src = (d', g', r)"
  shows "within_capacity g'"
  using assms within_capacity_chunked by (auto simp: decode_def Let_def split: if_splits)

section \<open>Panics\<close>

text \<open>The clock reading that makes the time limit of a collection unrepresentable.\<close>

definition clock_underflow :: "receive_config \<Rightarrow> clock \<Rightarrow> bool" where
  "clock_underflow cfg clk \<longleftrightarrow>
     clock_gc clk - int (from_millis (incomplete_timeout_ms cfg)) < - (2 ^ 63 * 1000000000)"

lemma panics_gc_iff:
  "panics (snd (snd (gc now d g))) \<longleftrightarrow>
   clock_underflow (config g) \<lparr>clock_gc = now, clock_ts = t\<rparr>"
  by (auto simp: gc_def Let_def timestamp_since_def system_time_sub_def since_epoch_def
      clock_underflow_def split: if_splits outcome.splits)

lemma push_not_panics: "push now d g h c = (d', g', r) \<Longrightarrow> \<not> panics r"
  by (cases rule: push_cases) auto

lemma gc_Panic_iff:
  "gc (clock_gc clk) d g = (d', g', r) \<Longrightarrow> panics r \<longleftrightarrow> clock_underflow (config g) clk"
  using panics_gc_iff [of "clock_gc clk" d g] by (simp add: clock_underflow_def)

lemma chunked_Panic_iff:
  assumes "chunked dbg clk d g src = (d', g', r)"
  shows "panics r \<longleftrightarrow> clock_underflow (config g) clk \<or>
    dbg \<and> 12 \<le> length src \<and> src ! 10 = 255 \<and>
    int (from_millis (incomplete_timeout_ms (config g))) \<le> clock_gc clk"
proof -
  let ?limit = "int (from_millis (incomplete_timeout_ms (config g)))"
  have gc_ok: "?limit \<le> clock_gc clk" if "gc (clock_gc clk) d g = (d1, g1, Ok ())" for d1 g1
    using that
    by (auto simp: gc_def Let_def timestamp_since_def system_time_sub_def since_epoch_def
        split: if_splits)
  have gc_bad: "\<not> ?limit \<le> clock_gc clk" if "gc (clock_gc clk) d g = (d1, g1, r1)" "r1 \<noteq> Ok ()"
    for d1 g1 r1
    using that
    by (auto simp: gc_def Let_def timestamp_since_def system_time_sub_def since_epoch_def
        split: if_splits)
  have header: "panics r1 \<longleftrightarrow> dbg \<and> 12 \<le> length src \<and> src ! 10 = 255"
    if "chunk_header_get dbg src = (rest, r1)" for rest r1
    using chunk_header_get_panics_iff [of dbg src] that by simp
  show ?thesis
    using assms
  proof (cases rule: chunked_cases)
    case (gc_failed r0)
    then show ?thesis
      using gc_Panic_iff [OF gc_failed(1)] gc_bad by (cases r0) auto
  next
    case (bad_header rest r0)
    then show ?thesis
      using gc_Panic_iff [OF bad_header(1)] gc_ok header [OF bad_header(2)]
      by (cases r0) auto
  next
    case (alone payload h)
    then show ?thesis
      using gc_Panic_iff [OF alone(1)] header [OF alone(2)] by (auto simp: single_detected)
  next
    case (too_many payload h)
    then show ?thesis
      using gc_Panic_iff [OF too_many(1)] header [OF too_many(2)] by auto
  next
    case (pushed d1 g1 payload h c)
    then show ?thesis
      using gc_Panic_iff [OF pushed(1)] header [OF pushed(2)] push_not_panics by auto
  qed
qed

section \<open>The abstract machine\<close>

record partial =
  p_total :: u8
  p_parts :: "u8 \<Rightarrow> bytes option"
  p_since :: duration

type_synonym pending = "u64 \<Rightarrow> partial option"

text \<open>Everything goes at the capacity; otherwise what is older than the timeout goes.\<close>

definition spec_collect :: "receive_config \<Rightarrow> system_time \<Rightarrow> pending \<Rightarrow> pending" where
  "spec_collect cfg now A =
     (if unat (incomplete_capacity cfg) \<le> card (dom A) then (\<lambda>_. None)
      else (\<lambda>i. case A i of
        None \<Rightarrow> None
      | Some p \<Rightarrow>
          if int (p_since p) < now - int (from_millis (incomplete_timeout_ms cfg)) then None
          else Some p))"

text \<open>
  The parts of a message are those of its chunks so far; it is complete when there is a
  part for every sequence number.
\<close>

definition spec_add ::
  "system_time \<Rightarrow> pending \<Rightarrow> chunk_header \<Rightarrow> bytes \<Rightarrow> pending \<times> message option result" where
  "spec_add now A h payload =
     (case A (header_id h) of
        None \<Rightarrow>
          (A(header_id h \<mapsto> \<lparr>p_total = seq_count h, p_parts = [seq_num h \<mapsto> payload],
             p_since = nat now\<rparr>), Ok None)
      | Some p \<Rightarrow>
          if p_total p \<noteq> seq_count h
          then (A, Err (InconsistentTotal (seq_count h) (p_total p)))
          else
            (let parts = (p_parts p)(seq_num h \<mapsto> payload)
             in if \<forall>k < p_total p. parts k \<noteq> None
                then (A(header_id h := None),
                  Ok (Some (Chunked (map (\<lambda>j. the (parts (of_nat j))) [0..<unat (p_total p)]))))
                else (A(header_id h \<mapsto> p\<lparr>p_parts := parts\<rparr>), Ok None)))"

definition spec_decode ::
  "bool \<Rightarrow> receive_config \<Rightarrow> clock \<Rightarrow> pending \<Rightarrow> bytes \<Rightarrow> pending \<times> message option result" where
  "spec_decode dbg cfg clk A src =
     (if peek_magic_bytes src \<noteq> Some MAGIC_CHUNKED
      then (A, Ok (if src = [] then None
                   else Some (Single (Option.bind (peek_magic_bytes src) detect) src)))
      else
        (let A1 = spec_collect cfg (clock_gc clk) A
         in case chunk_header_get dbg src of
              (_, Err e) \<Rightarrow> (A1, Err e)
            | (_, Panic p) \<Rightarrow> (A1, Panic p)
            | (payload, Ok h) \<Rightarrow>
                if seq_count h = 1
                then (A1, Ok (if payload = [] then None
                  else Some (Single (Option.bind (peek_magic_bytes payload) detect) payload)))
                else if max_chunks_per_message cfg < seq_count h
                then (A1, Err (TooManyChunks (seq_count h) (max_chunks_per_message cfg)))
                else spec_add (clock_ts clk) A1 h payload))"

section \<open>Refinement\<close>

definition abs_entry :: "chunks \<times> unique_timestamp \<Rightarrow> partial" where
  "abs_entry e =
     \<lparr>p_total = expected_total (fst e), p_parts = bt_get (inner (fst e)),
      p_since = ts_time (snd e)\<rparr>"

definition abs_gelf :: "gelf \<Rightarrow> pending" where
  "abs_gelf g = (\<lambda>i. map_option abs_entry (hm_get (by_id g) i))"

text \<open>A clock that is past the timeout when it collects, and past the epoch.\<close>

definition clock_ok :: "receive_config \<Rightarrow> clock \<Rightarrow> bool" where
  "clock_ok cfg clk \<longleftrightarrow>
     int (from_millis (incomplete_timeout_ms cfg)) \<le> clock_gc clk \<and> 0 \<le> clock_ts clk"

lemma dom_abs_gelf: "dom (abs_gelf g) = dom (hm_get (by_id g))"
  by (auto simp: abs_gelf_def dom_def)

lemma card_abs_gelf: "gelf_inv g \<Longrightarrow> card (dom (abs_gelf g)) = length (by_id g)"
  using gelf_invD(1) by (simp add: dom_abs_gelf hm.len_card)

lemma gc_clock_ok:
  assumes "clock_ok cfg clk" and "cfg = config g"
  obtains d' g' where "gc (clock_gc clk) d g = (d', g', Ok ())"
  using assms
  by (auto simp: gc_def Let_def timestamp_since_def system_time_sub_def since_epoch_def
      clock_ok_def)

lemma abs_gc:
  assumes inv: "gelf_inv g" and run: "gc now d g = (d', g', Ok ())"
  shows "abs_gelf g' = spec_collect (config g) now (abs_gelf g)"
  using run
proof (cases rule: gc_cases)
  case (kept since)
  let ?limit = "from_millis (incomplete_timeout_ms (config g))"
  from kept(2) have since: "since = UniqueTimestamp (nat (now - int ?limit)) 0" "int ?limit \<le> now"
    by (auto simp: timestamp_since_def system_time_sub_def since_epoch_def split: if_splits)
  then have older: "ts < since \<longleftrightarrow> int (ts_time ts) < now - int ?limit" for ts
    by (auto simp: less_unique_timestamp_def)
  have room: "\<not> unat (incomplete_capacity (config g)) \<le> card (dom (abs_gelf g))"
    using kept(3) by (simp add: card_abs_gelf [OF inv])
  show ?thesis
  proof
    fix i
    show "abs_gelf g' i = spec_collect (config g) now (abs_gelf g) i"
      using kept(4) room
      by (cases "hm_get (by_id g) i")
        (auto simp: spec_collect_def abs_gelf_def expire_by_id [OF inv] abs_entry_def older)
  qed
next
  case (dropped since)
  then show ?thesis
    by (simp add: spec_collect_def card_abs_gelf [OF inv]) (simp add: abs_gelf_def map_simps)
qed simp

lemma abs_open:
  "gelf_inv g \<Longrightarrow> abs_gelf (open_entry ts i cs g) = (abs_gelf g)(i \<mapsto> abs_entry (cs, ts))"
  using gelf_invD(1) by (auto simp: abs_gelf_def open_entry_def map_simps fun_eq_iff)

lemma abs_close: "gelf_inv g \<Longrightarrow> abs_gelf (close_entry ts i g) = (abs_gelf g)(i := None)"
  using gelf_invD(1) by (auto simp: abs_gelf_def close_entry_def map_simps fun_eq_iff)

lemma abs_update:
  "gelf_inv g \<Longrightarrow> abs_gelf (update_entry ts i cs g) = (abs_gelf g)(i \<mapsto> abs_entry (cs, ts))"
  using gelf_invD(1) by (auto simp: abs_gelf_def update_entry_def map_simps fun_eq_iff)

lemma chunks_insert_parts:
  "bt_wf (inner cs) \<Longrightarrow> bt_get (inner (chunks_insert c cs)) =
     (bt_get (inner cs))(chunk_seq c \<mapsto> chunk_bytes c)"
  by (auto simp: chunks_insert_def map_simps fun_eq_iff)

text \<open>The chunks of a message with one more chunk, as parts.\<close>

lemma inserted_chunk:
  assumes wf: "chunks_wf cfg cs" and c: "c = \<lparr>chunk_seq = seq_num h, chunk_bytes = payload\<rparr>"
    and ok: "pushable cfg h c" and count: "expected_total cs = seq_count h"
  defines "parts \<equiv> (bt_get (inner cs))(seq_num h \<mapsto> payload)"
  shows "is_complete (chunks_insert c cs) \<longleftrightarrow> (\<forall>k < seq_count h. parts k \<noteq> None)"
    and "abs_entry (chunks_insert c cs, ts) = (abs_entry (cs, ts))\<lparr>p_parts := parts\<rparr>"
    and "is_complete (chunks_insert c cs) \<Longrightarrow> chunked_message (bt_values (inner (chunks_insert c cs))) =
      Some (Chunked (map (\<lambda>j. the (parts (of_nat j))) [0..<unat (seq_count h)]))"
proof -
  note keys = chunks_insert_keys [OF wf ok count]
  have parts: "bt_get (inner (chunks_insert c cs)) = parts"
    using wf by (simp add: chunks_insert_parts chunks_wf_def c parts_def)
  have total: "expected_total (chunks_insert c cs) = seq_count h"
    using count by (simp add: chunks_insert_def)
  show "is_complete (chunks_insert c cs) \<longleftrightarrow> (\<forall>k < seq_count h. parts k \<noteq> None)"
    using complete_chunks [OF keys] unfolding parts total .
  show "abs_entry (chunks_insert c cs, ts) = (abs_entry (cs, ts))\<lparr>p_parts := parts\<rparr>"
    using total count by (simp add: abs_entry_def parts)
  assume complete: "is_complete (chunks_insert c cs)"
  have "0 < unat (seq_count h)"
    using ok by (auto simp: pushable_def word_less_nat_alt)
  then show "chunked_message (bt_values (inner (chunks_insert c cs))) =
      Some (Chunked (map (\<lambda>j. the (parts (of_nat j))) [0..<unat (seq_count h)]))"
    using complete_values [OF keys complete] complete unfolding parts total
    by (auto simp: chunked_message_def is_complete_def total)
qed

text \<open>A chunk is pushed onto the two indices as it is added to the map of parts.\<close>

lemma abs_push:
  assumes inv: "gelf_inv g" and c: "c = \<lparr>chunk_seq = seq_num h, chunk_bytes = payload\<rparr>"
    and ok: "pushable (config g) h c" and now: "0 \<le> now"
    and run: "push now d g h c = (d', g', r)"
  shows "spec_add now (abs_gelf g) h payload = (abs_gelf g', r)"
  using run
proof (cases rule: push_cases)
  case (opened ts)
  then have "abs_gelf g (header_id h) = None"
    by (simp add: abs_gelf_def)
  moreover have "abs_entry (chunks_new (seq_count h) c, ts) =
      \<lparr>p_total = seq_count h, p_parts = [seq_num h \<mapsto> payload], p_since = nat now\<rparr>"
    using opened(3) by (auto simp: abs_entry_def chunks_new_def c bt_get_def fun_eq_iff)
  ultimately show ?thesis
    using opened by (simp add: spec_add_def abs_open [OF inv])
next
  case clock
  with now show ?thesis by simp
next
  case (mismatch cs ts)
  then show ?thesis
    by (simp add: spec_add_def abs_gelf_def abs_entry_def)
next
  case (completed cs ts)
  note inserted = inserted_chunk [OF gelf_invD(5) [OF inv completed(1)] c ok completed(2)]
  have "abs_gelf g (header_id h) = Some (abs_entry (cs, ts))"
    using completed(1) by (simp add: abs_gelf_def)
  then show ?thesis
    using completed inserted(1) inserted(3) [OF completed(3)]
    by (simp add: spec_add_def abs_close [OF inv] Let_def abs_entry_def)
next
  case (added cs ts)
  note inserted = inserted_chunk [OF gelf_invD(5) [OF inv added(1)] c ok added(2)]
  have "abs_gelf g (header_id h) = Some (abs_entry (cs, ts))"
    using added(1) by (simp add: abs_gelf_def)
  then show ?thesis
    using added inserted(1) inserted(2) [of ts]
    by (simp add: spec_add_def abs_update [OF inv] Let_def abs_entry_def)
qed

lemma abs_decode:
  assumes inv: "gelf_inv g" and clk: "clock_ok (config g) clk"
    and run: "decode dbg clk d g src = (d', g', r)"
  shows "spec_decode dbg (config g) clk (abs_gelf g) src = (abs_gelf g', r)"
proof (cases "peek_magic_bytes src = Some MAGIC_CHUNKED")
  case False
  then show ?thesis
    using run by (auto simp: decode_def spec_decode_def single_detected)
next
  case True
  let ?d = "increment (Receive M_chunk) d"
  from True run have "chunked dbg clk ?d g src = (d', g', r)"
    by (simp add: decode_def)
  then show ?thesis
  proof (cases rule: chunked_cases)
    case (gc_failed r0)
    moreover obtain d1 g1 where "gc (clock_gc clk) ?d g = (d1, g1, Ok ())"
      using gc_clock_ok [OF clk refl] by metis
    ultimately show ?thesis by simp
  next
    case (bad_header rest r0)
    then show ?thesis
      using True abs_gc [OF inv bad_header(1)]
      by (cases r0) (auto simp: spec_decode_def Let_def)
  next
    case (alone payload h)
    then show ?thesis
      using True abs_gc [OF inv alone(1)]
      by (simp add: spec_decode_def Let_def single_detected)
  next
    case (too_many payload h)
    then show ?thesis
      using True abs_gc [OF inv too_many(1)] gc_frame [OF too_many(1)]
      by (simp add: spec_decode_def Let_def)
  next
    case (pushed d1 g1 payload h c)
    have cfg: "config g1 = config g"
      using gc_frame [OF pushed(1)] by simp
    have "spec_add (clock_ts clk) (abs_gelf g1) h payload = (abs_gelf g', r)"
      using abs_push [OF gelf_inv_gc [OF inv pushed(1)] pushed(3,4) _ pushed(5)] clk
      by (simp add: clock_ok_def)
    then show ?thesis
      using True pushed(2,4) abs_gc [OF inv pushed(1)]
      by (simp add: spec_decode_def Let_def pushable_def cfg linorder_not_less [symmetric])
  qed
qed

end
