(* ===== verification/Receive_Run.thy ===== *)
theory Receive_Run
  imports Receive_Spec
begin

text \<open>
  Sequences of datagrams. The decoder is run over a list of datagrams, each with the clock
  readings it sees; the abstract machine is run over the same list. The main fact is about
  one message among arbitrary other traffic: its chunks may come in any order, mixed with
  any other datagrams, and the last of them yields the message with its parts in order.
\<close>

section \<open>Runs\<close>

fun decode_run ::
  "bool \<Rightarrow> diag \<Rightarrow> gelf \<Rightarrow> (clock \<times> bytes) list \<Rightarrow> diag \<times> gelf \<times> message option result list" where
  "decode_run dbg d g [] = (d, g, [])"
| "decode_run dbg d g ((clk, src) # ins) =
     (case decode dbg clk d g src of
        (d1, g1, r) \<Rightarrow> (case decode_run dbg d1 g1 ins of (d2, g2, rs) \<Rightarrow> (d2, g2, r # rs)))"

fun spec_run ::
  "bool \<Rightarrow> receive_config \<Rightarrow> pending \<Rightarrow> (clock \<times> bytes) list \<Rightarrow>
   pending \<times> message option result list" where
  "spec_run dbg cfg A [] = (A, [])"
| "spec_run dbg cfg A ((clk, src) # ins) =
     (case spec_decode dbg cfg clk A src of
        (A1, r) \<Rightarrow> (case spec_run dbg cfg A1 ins of (A2, rs) \<Rightarrow> (A2, r # rs)))"

text \<open>The counter runs out only after \<open>2 ^ 64\<close> datagrams.\<close>

definition counter_left :: "gelf \<Rightarrow> nat" where
  "counter_left g = 2 ^ 64 - 1 - unat (counter (by_arrival g))"

lemma counter_left_pos: "0 < counter_left g \<Longrightarrow> counter (by_arrival g) \<noteq> - 1"
  by (auto simp: counter_left_def unsigned_minus_1_eq_mask mask_eq_exp_minus_1)

lemma counter_left_decode:
  assumes "decode dbg clk d g src = (d', g', r)" and "Suc n \<le> counter_left g"
  shows "n \<le> counter_left g'"
proof -
  have "unat (counter (by_arrival g) + 1) = Suc (unat (counter (by_arrival g)))"
    using assms(2) by (simp add: counter_left_def unat_word_ariths)
  then show ?thesis
    using decode_frame(3) [OF assms(1)] assms(2) by (auto simp: counter_left_def)
qed

lemma decode_run_inv:
  assumes "gelf_inv g" and "within_capacity g" and "length ins \<le> counter_left g"
    and "decode_run dbg d g ins = (d', g', rs)"
  shows "gelf_inv g' \<and> within_capacity g' \<and> config g' = config g \<and> length rs = length ins"
  using assms
proof (induction dbg d g ins arbitrary: d' g' rs rule: decode_run.induct)
  case (2 dbg d g clk src ins)
  obtain d1 g1 r where step: "decode dbg clk d g src = (d1, g1, r)"
    by (metis prod_cases3)
  obtain d2 g2 rs' where rest: "decode_run dbg d1 g1 ins = (d2, g2, rs')"
    by (metis prod_cases3)
  have "gelf_inv g1 \<and> within_capacity g1 \<and> length ins \<le> counter_left g1"
    using "2.prems" step counter_left_pos [of g]
    by (auto intro: gelf_inv_decode within_capacity_decode counter_left_decode)
  then show ?case
    using "2.IH" [OF step [symmetric] refl, of d2 g2 rs'] rest step "2.prems"
      decode_frame(1) [OF step]
    by auto
qed auto

lemma decode_run_refines:
  assumes "gelf_inv g" and "length ins \<le> counter_left g"
    and "\<forall>(clk, src) \<in> set ins. clock_ok (config g) clk"
    and "decode_run dbg d g ins = (d', g', rs)"
  shows "spec_run dbg (config g) (abs_gelf g) ins = (abs_gelf g', rs)"
  using assms
proof (induction dbg d g ins arbitrary: d' g' rs rule: decode_run.induct)
  case (2 dbg d g clk src ins)
  obtain d1 g1 r where step: "decode dbg clk d g src = (d1, g1, r)"
    by (metis prod_cases3)
  obtain d2 g2 rs' where rest: "decode_run dbg d1 g1 ins = (d2, g2, rs')"
    by (metis prod_cases3)
  have inv: "gelf_inv g1" "length ins \<le> counter_left g1"
    using "2.prems" step counter_left_pos [of g]
    by (auto intro: gelf_inv_decode counter_left_decode)
  have "spec_decode dbg (config g) clk (abs_gelf g) src = (abs_gelf g1, r)"
    using abs_decode [OF "2.prems"(1) _ step] "2.prems"(3) by simp
  moreover have "spec_run dbg (config g1) (abs_gelf g1) ins = (abs_gelf g2, rs')"
    using "2.IH" [OF step [symmetric] refl inv _ rest] "2.prems"(3)
      decode_frame(1) [OF step] by simp
  ultimately show ?case
    using "2.prems"(4) step rest decode_frame(1) [OF step] by simp
qed auto

section \<open>One message among other traffic\<close>

text \<open>The datagrams that carry an id, valid or not, and the results they got.\<close>

definition chunk_of :: "u64 \<Rightarrow> bytes \<Rightarrow> bool" where
  "chunk_of i src \<longleftrightarrow>
     peek_magic_bytes src = Some MAGIC_CHUNKED \<and> 12 \<le> length src \<and> get_u64 (drop 2 src) = i"

definition results_for ::
  "u64 \<Rightarrow> (clock \<times> bytes) list \<Rightarrow> message option result list \<Rightarrow> message option result list" where
  "results_for i ins rs = map snd (filter (\<lambda>((clk, src), r). chunk_of i src) (zip ins rs))"

lemma results_for_Cons [simp]:
  "results_for i ((clk, src) # ins) (r # rs) =
     (if chunk_of i src then r # results_for i ins rs else results_for i ins rs)"
  "results_for i [] rs = []"
  by (simp_all add: results_for_def)

lemma results_for_none:
  "\<forall>(clk, src) \<in> set ins. \<not> chunk_of i src \<Longrightarrow> results_for i ins rs = []"
  by (auto simp: results_for_def filter_empty_conv dest: set_zip_leftD)

lemma chunk_header_get_id:
  assumes "chunk_header_get dbg src = (payload, Ok h)"
  shows "header_id h = get_u64 (drop 2 src)"
  using assms by (simp add: chunk_header_get_Ok_iff)

lemma chunk_of_udp_chunk [simp]: "chunk_of i (udp_chunk j num n bs) \<longleftrightarrow> i = j"
  by (auto simp: chunk_of_def get_u64_be_bytes) (auto simp: udp_chunk_def get_u64_be_bytes)

text \<open>Traffic for other ids leaves an entry alone while there is room and time.\<close>

definition keeps :: "receive_config \<Rightarrow> clock \<Rightarrow> pending \<Rightarrow> u64 \<Rightarrow> bool" where
  "keeps cfg clk A i \<longleftrightarrow>
     card (dom A) < unat (incomplete_capacity cfg) \<and>
     (\<forall>p. A i = Some p \<longrightarrow>
       clock_gc clk - int (from_millis (incomplete_timeout_ms cfg)) \<le> int (p_since p))"

lemma spec_collect_keeps: "keeps cfg clk A i \<Longrightarrow> spec_collect cfg (clock_gc clk) A i = A i"
  by (auto simp: keeps_def spec_collect_def split: option.splits)

lemma spec_add_other: "header_id h \<noteq> i \<Longrightarrow> fst (spec_add now A h payload) i = A i"
  by (auto simp: spec_add_def Let_def split: option.splits)

lemma spec_decode_other:
  assumes "keeps cfg clk A i" and "\<not> chunk_of i src"
  shows "fst (spec_decode dbg cfg clk A src) i = A i"
proof -
  have "header_id h \<noteq> i" if "chunk_header_get dbg src = (payload, Ok h)"
    "peek_magic_bytes src = Some MAGIC_CHUNKED" for payload h
    using assms(2) that chunk_header_get_id chunk_header_get_OkD(2) by (auto simp: chunk_of_def)
  then show ?thesis
    using spec_collect_keeps [OF assms(1)]
    by (auto simp: spec_decode_def Let_def spec_add_other split: prod.splits outcome.splits)
qed

lemma finite_spec_collect:
  "finite (dom A) \<Longrightarrow> finite (dom (spec_collect cfg now A)) \<and>
   card (dom (spec_collect cfg now A)) \<le> card (dom A)"
  by (rule conjI, erule rev_finite_subset, force simp: spec_collect_def split: option.splits if_splits)
    (auto intro!: card_mono simp: spec_collect_def split: option.splits if_splits)

lemma card_spec_add:
  "finite (dom A) \<Longrightarrow> finite (dom (fst (spec_add now A h payload))) \<and>
   card (dom (fst (spec_add now A h payload))) \<le> Suc (card (dom A))"
  by (auto simp: spec_add_def Let_def card_insert_if card_Diff1_le le_SucI
      split: option.splits)

lemma card_spec_decode:
  assumes "finite (dom A)"
  shows "finite (dom (fst (spec_decode dbg cfg clk A src))) \<and>
    card (dom (fst (spec_decode dbg cfg clk A src))) \<le> Suc (card (dom A))"
proof -
  note c = finite_spec_collect [OF assms, of cfg "clock_gc clk"]
  note a = card_spec_add [of "spec_collect cfg (clock_gc clk) A"]
  have "finite (dom (fst (spec_add now (spec_collect cfg (clock_gc clk) A) h payload))) \<and>
      card (dom (fst (spec_add now (spec_collect cfg (clock_gc clk) A) h payload)))
        \<le> Suc (card (dom A))" for now h payload
    using c a [of now h payload] by linarith
  then show ?thesis
    using assms c
    by (auto simp: spec_decode_def Let_def le_SucI split: prod.splits outcome.splits)
qed

section \<open>Reassembly in any order\<close>

text \<open>The entry of a message after the chunks in \<open>seen\<close>; none before its first chunk.\<close>

definition holds_parts ::
  "pending \<Rightarrow> u64 \<Rightarrow> u8 \<Rightarrow> (u8 \<Rightarrow> bytes) \<Rightarrow> duration \<Rightarrow> u8 set \<Rightarrow> bool" where
  "holds_parts A i n payload start seen \<longleftrightarrow>
     (if seen = {} then A i = None
      else (\<exists>p. A i = Some p \<and> p_total p = n \<and> start \<le> p_since p \<and>
        p_parts p = (\<lambda>k. if k \<in> seen then Some (payload k) else None)))"

text \<open>The clock stays within one timeout of a moment \<open>start\<close>.\<close>

definition in_window :: "receive_config \<Rightarrow> duration \<Rightarrow> clock \<Rightarrow> bool" where
  "in_window cfg start clk \<longleftrightarrow>
     int start \<le> clock_ts clk \<and>
     clock_gc clk \<le> int start + int (from_millis (incomplete_timeout_ms cfg))"

lemma holds_parts_keeps:
  assumes "holds_parts A i n payload start seen" and "in_window cfg start clk"
    and "card (dom A) < unat (incomplete_capacity cfg)"
  shows "keeps cfg clk A i"
  using assms by (auto simp: holds_parts_def keeps_def in_window_def split: if_splits)

lemma spec_decode_udp_chunk:
  assumes "k < n" and "n \<noteq> 1" and "n \<le> max_chunks_per_message cfg"
  shows "spec_decode dbg cfg clk A (udp_chunk i k n bs) =
    spec_add (clock_ts clk) (spec_collect cfg (clock_gc clk) A)
      \<lparr>header_id = i, seq_num = k, seq_count = n\<rparr> bs"
  using assms
  by (simp add: spec_decode_def chunk_header_get_udp_chunk linorder_not_less [symmetric])

text \<open>The first chunk of the message opens an entry, as the message has more than one.\<close>

lemma spec_add_first:
  assumes "holds_parts A i n payload start {}" and "start \<le> nat now" and "1 < n"
    and run: "spec_add now A \<lparr>header_id = i, seq_num = k, seq_count = n\<rparr> (payload k) = (A', r)"
  shows "r = Ok None" and "holds_parts A' i n payload start {k}" and "{k} \<noteq> {k. k < n}"
proof -
  have "[k \<mapsto> payload k] = (\<lambda>j. if j \<in> {k} then Some (payload j) else None)"
    by (simp add: fun_eq_iff)
  then show "r = Ok None" "holds_parts A' i n payload start {k}"
    using assms by (auto simp: spec_add_def holds_parts_def)
  have "0 < n" using \<open>1 < n\<close> by (metis word_gt_0 word_not_simps(1))
  then have "0 \<in> {k. k < n}" "1 \<in> {k. k < n}" using \<open>1 < n\<close> by auto
  then show "{k} \<noteq> {k. k < n}" by (metis singletonD zero_neq_one)
qed

text \<open>A further chunk completes the message, or the entry holds one more part.\<close>

lemma spec_add_further:
  assumes parts: "holds_parts A i n payload start seen" "seen \<noteq> {}" and seen: "insert k seen \<subseteq> {k. k < n}"
    and run: "spec_add now A \<lparr>header_id = i, seq_num = k, seq_count = n\<rparr> (payload k) = (A', r)"
  shows "if insert k seen = {k. k < n}
    then r = Ok (Some (Chunked (map (\<lambda>j. payload (of_nat j)) [0..<unat n])))
    else r = Ok None \<and> holds_parts A' i n payload start (insert k seen)"
proof -
  from parts obtain p where p: "A i = Some p" "p_total p = n" "start \<le> p_since p"
    "p_parts p = (\<lambda>k. if k \<in> seen then Some (payload k) else None)"
    by (auto simp: holds_parts_def)
  define parts' where "parts' = (p_parts p)(k \<mapsto> payload k)"
  have upd: "parts' = (\<lambda>j. if j \<in> insert k seen then Some (payload j) else None)"
    by (auto simp: p(4) fun_eq_iff parts'_def)
  have full: "(\<forall>j < n. parts' j \<noteq> None) \<longleftrightarrow> insert k seen = {k. k < n}"
    using seen unfolding upd by auto
  have "(of_nat j :: u8) < n" if "j < unat n" for j
    using that unat_u8_less [of n] by (simp add: word_less_nat_alt unat_of_nat)
  then have in_order: "map (\<lambda>j. the (parts' (of_nat j))) [0..<unat n] =
      map (\<lambda>j. payload (of_nat j)) [0..<unat n]" if "insert k seen = {k. k < n}"
    using that unfolding upd by (intro map_cong) auto
  show ?thesis
    using run p(1-3) upd full in_order
    by (auto simp: spec_add_def holds_parts_def Let_def simp flip: parts'_def split: if_splits)
qed

text \<open>One more chunk of the message: it is the last one, or the entry holds one more part.\<close>

lemma spec_decode_next_part:
  assumes parts: "holds_parts A i n payload start seen" and win: "in_window cfg start clk"
    and room: "card (dom A) < unat (incomplete_capacity cfg)"
    and k: "k < n" "k \<notin> seen" and n: "1 < n" "n \<le> max_chunks_per_message cfg"
    and seen: "seen \<subseteq> {k. k < n}"
    and run: "spec_decode dbg cfg clk A (udp_chunk i k n (payload k)) = (A', r)"
  shows "if insert k seen = {k. k < n}
    then r = Ok (Some (Chunked (map (\<lambda>j. payload (of_nat j)) [0..<unat n])))
    else r = Ok None \<and> holds_parts A' i n payload start (insert k seen)"
proof -
  let ?A = "spec_collect cfg (clock_gc clk) A"
  have "?A i = A i"
    using spec_collect_keeps holds_parts_keeps [OF parts win room] by blast
  then have parts': "holds_parts ?A i n payload start seen"
    using parts by (simp add: holds_parts_def)
  have run': "spec_add (clock_ts clk) ?A \<lparr>header_id = i, seq_num = k, seq_count = n\<rparr> (payload k) = (A', r)"
    using run spec_decode_udp_chunk [OF k(1) _ n(2)] n(1) by auto
  have start: "start \<le> nat (clock_ts clk)"
    using win by (auto simp: in_window_def)
  show ?thesis
    using spec_add_first [where payload = payload, OF _ start n(1) run']
      spec_add_further [where payload = payload, OF parts' _ _ run'] parts' seen k(1)
    by (cases "seen = {}") auto
qed

lemma spec_own_step:
  assumes parts: "holds_parts A i n payload start seen" and win: "in_window cfg start clk"
    and room: "card (dom A) < unat (incomplete_capacity cfg)" and n: "1 < n" "n \<le> max_chunks_per_message cfg"
    and ks: "distinct (k # ks)" "set (k # ks) \<inter> seen = {}" "set (k # ks) \<union> seen = {k. k < n}"
    and step: "spec_decode dbg cfg clk A (udp_chunk i k n (payload k)) = (A', r)"
  shows "if ks = [] then r = Ok (Some (Chunked (map (\<lambda>j. payload (of_nat j)) [0..<unat n])))
    else r = Ok None \<and> holds_parts A' i n payload start (insert k seen)"
proof -
  have "insert k seen = {k. k < n} \<longleftrightarrow> ks = []"
  proof
    assume all: "insert k seen = {k. k < n}"
    have "set ks \<subseteq> insert k seen" unfolding all using ks(3) by auto
    then show "ks = []" using ks(1,2) by (cases ks) auto
  qed (use ks(3) in auto)
  moreover have "k < n" "k \<notin> seen" "seen \<subseteq> {k. k < n}" using ks(2,3) by auto
  ultimately show ?thesis
    using spec_decode_next_part [where payload = payload, OF parts win room _ _ n _ step] by simp
qed

lemma spec_run_reassembles:
  assumes n: "1 < n" "n \<le> max_chunks_per_message cfg"
    and win: "\<forall>(clk, src) \<in> set ins. in_window cfg start clk"
    and room: "finite (dom A)" "card (dom A) + length ins \<le> unat (incomplete_capacity cfg)"
    and mine: "map snd (filter (\<lambda>(clk, src). chunk_of i src) ins) =
      map (\<lambda>k. udp_chunk i k n (payload k)) ks"
    and ks: "distinct ks" "set ks \<inter> seen = {}" "set ks \<union> seen = {k. k < n}" "ks \<noteq> []"
    and parts: "holds_parts A i n payload start seen"
    and run: "spec_run dbg cfg A ins = (A', rs)"
  shows "results_for i ins rs = replicate (length ks - 1) (Ok None) @
    [Ok (Some (Chunked (map (\<lambda>j. payload (of_nat j)) [0..<unat n])))]"
  using win room mine ks parts run
proof (induction ins arbitrary: A seen ks A' rs)
  case (Cons inp ins)
  obtain clk src where inp: "inp = (clk, src)" by (cases inp)
  obtain A1 r where step: "spec_decode dbg cfg clk A src = (A1, r)" by (metis surj_pair)
  obtain A2 rs' where rest: "spec_run dbg cfg A1 ins = (A2, rs')" by (metis surj_pair)
  have rs: "rs = r # rs'"
    using Cons.prems(10) step rest by (simp add: inp)
  have win': "in_window cfg start clk" "\<forall>(clk, src) \<in> set ins. in_window cfg start clk"
    and room1: "card (dom A) < unat (incomplete_capacity cfg)"
    using Cons.prems(1,3) by (auto simp: inp)
  have room': "finite (dom A1)" "card (dom A1) + length ins \<le> unat (incomplete_capacity cfg)"
    using card_spec_decode [OF Cons.prems(2), of dbg cfg clk src] step Cons.prems(3) by auto
  show ?case
  proof (cases "chunk_of i src")
    case False
    have "A1 i = A i"
      using spec_decode_other [OF holds_parts_keeps [OF Cons.prems(9) win'(1) room1] False] step
      by (metis fst_conv)
    then have "holds_parts A1 i n payload start seen"
      using Cons.prems(9) by (simp add: holds_parts_def)
    then show ?thesis
      using Cons.IH [OF win'(2) room' _ Cons.prems(5-8) _ rest] Cons.prems(4) False rs
      by (simp add: inp)
  next
    case True
    then obtain k ks' where ks': "ks = k # ks'" "src = udp_chunk i k n (payload k)"
      "map snd (filter (\<lambda>(clk, src). chunk_of i src) ins) =
        map (\<lambda>k. udp_chunk i k n (payload k)) ks'"
      using Cons.prems(4) by (cases ks) (auto simp: inp)
    note own = spec_own_step [where payload = payload, OF Cons.prems(9) win'(1) room1 n
        Cons.prems(5-7) [unfolded ks'(1)] step [unfolded ks'(2)]]
    show ?thesis
    proof (cases "ks' = []")
      case last: True
      have "results_for i ins rs' = []"
        using ks'(3) last by (intro results_for_none) (auto simp: filter_empty_conv)
      then show ?thesis using own True rs last ks'(1) by (simp add: inp)
    next
      case more: False
      then show ?thesis
        using Cons.IH [OF win'(2) room' ks'(3) _ _ _ more _ rest, of "insert k seen"] own
          Cons.prems(5-7) True rs ks'(1) by (cases ks') (auto simp: inp)
    qed
  qed
qed simp

section \<open>Properties\<close>

lemma below_u8: "{k. k < (n :: u8)} = of_nat ` {..<unat n}"
proof
  show "{k. k < n} \<subseteq> of_nat ` {..<unat n}"
  proof
    fix k
    assume "k \<in> {k. k < n}"
    then have "unat k < unat n" "k = of_nat (unat k)"
      by (simp_all add: word_less_nat_alt)
    then show "k \<in> of_nat ` {..<unat n}" by blast
  qed
  show "of_nat ` {..<unat n} \<subseteq> {k. k < n}"
    using unat_u8_less [of n] by (auto simp: word_less_nat_alt unat_of_nat)
qed

lemma gelf_new_facts:
  "abs_gelf (gelf_new cfg) = (\<lambda>_. None)" "within_capacity (gelf_new cfg)"
  "counter_left (gelf_new cfg) = 2 ^ 64 - 1" "config (gelf_new cfg) = cfg"
  by (simp_all add: abs_gelf_def gelf_new_def map_simps within_capacity_def counter_left_def
      new_by_arrival_def)

lemma capacity_below_counter: "unat (c :: u64) \<le> 2 ^ 64 - 1"
proof -
  have "unat c < 2 ^ LENGTH(64)"
    by (rule unsigned_less)
  then show ?thesis by simp
qed

lemma decode_run_reassembles:
  assumes n: "1 < n" "n \<le> max_chunks_per_message cfg"
    and room: "length ins \<le> unat (incomplete_capacity cfg)"
    and clocks: "\<forall>(clk, src) \<in> set ins. clock_ok cfg clk \<and> in_window cfg start clk"
    and mine: "map snd (filter (\<lambda>(clk, src). chunk_of i src) ins) =
      map (\<lambda>k. udp_chunk i k n (payload k)) ks"
    and ks: "distinct ks" "set ks = of_nat ` {..<unat n}"
  shows "results_for i ins (snd (snd (decode_run dbg d (gelf_new cfg) ins))) =
    replicate (unat n - 1) (Ok None) @
    [Ok (Some (Chunked (map (\<lambda>j. payload (of_nat j)) [0..<unat n])))]"
proof -
  obtain d' g' rs where run: "decode_run dbg d (gelf_new cfg) ins = (d', g', rs)"
    by (metis prod_cases3)
  have "length ins \<le> counter_left (gelf_new cfg)"
    using room capacity_below_counter [of "incomplete_capacity cfg"]
    by (simp add: gelf_new_facts)
  then have spec: "spec_run dbg cfg (\<lambda>_. None) ins = (abs_gelf g', rs)"
    using decode_run_refines [OF gelf_inv_new _ _ run] clocks by (auto simp: gelf_new_facts)
  have len: "length ks = unat n"
  proof -
    have "inj_on (of_nat :: nat \<Rightarrow> u8) {..<unat n}"
      using unat_u8_less [of n]
      by (auto simp: inj_on_def word_unat_eq_iff unat_of_nat)
    then show ?thesis
      using ks distinct_card [OF ks(1)] by (simp add: card_image)
  qed
  have below: "set ks = {k. k < n}" and ne: "ks \<noteq> []"
    using ks(2) below_u8 [of n] len n(1) by (auto simp: word_less_nat_alt)
  have "results_for i ins rs = replicate (length ks - 1) (Ok None) @
      [Ok (Some (Chunked (map (\<lambda>j. payload (of_nat j)) [0..<unat n])))]"
    by (rule spec_run_reassembles [where seen = "{}" and A = "\<lambda>_. None", OF n _ _ _ mine ks(1)])
      (use spec below ne room clocks in \<open>auto simp: holds_parts_def\<close>)
  then show ?thesis
    by (simp add: run len)
qed

text \<open>
  C1: a chunked message is reassembled whatever the order of its chunks and whatever else
  arrives in between. Take a fresh decoder, any list of datagrams no longer than the
  capacity, clock readings that stay within one timeout, and a message of two or more chunks
  (at most the configured maximum) whose chunks appear among the datagrams in any order. The
  datagrams that carry its id return \<open>None\<close> until the last one, which returns the message
  with its payloads in the order of their sequence numbers.
\<close>

theorem reassembly_any_order:
  assumes n: "1 < n" "n \<le> max_chunks_per_message cfg"
    and room: "length ins \<le> unat (incomplete_capacity cfg)"
    and clocks: "\<forall>(clk, src) \<in> set ins. clock_ok cfg clk \<and> in_window cfg start clk"
    and mine: "map snd (filter (\<lambda>(clk, src). chunk_of i src) ins) =
      map (\<lambda>k. udp_chunk i k n (payload k)) ks"
    and ks: "distinct ks" "set ks = of_nat ` {..<unat n}"
  shows "results_for i ins (snd (snd (decode_run dbg d (gelf_new cfg) ins))) =
    replicate (unat n - 1) (Ok None) @
    [Ok (Some (Chunked (map (\<lambda>j. payload (of_nat j)) [0..<unat n])))]"
  by (rule decode_run_reassembles [OF assms])

text \<open>Two chunks of message 7 in the wrong order, with a plain datagram between them.\<close>

definition example_clock :: clock where
  "example_clock = \<lparr>clock_gc = 6000000000, clock_ts = 6000000000\<rparr>"

definition example_input :: "(clock \<times> bytes) list" where
  "example_input =
     [(example_clock, udp_chunk 7 1 2 [3, 4]), (example_clock, [1, 2, 3]),
      (example_clock, udp_chunk 7 0 2 [9])]"

lemma example_clock_ok:
  "clock_ok default_receive_config example_clock"
  "in_window default_receive_config 6000000000 example_clock"
  by (simp_all add: clock_ok_def in_window_def example_clock_def default_receive_config_def
      from_millis_def)

theorem reassembly_any_order_witness:
  "results_for 7 example_input
     (snd (snd (decode_run True (initial_diag 0) (gelf_new default_receive_config) example_input))) =
   [Ok None, Ok (Some (Chunked [[9], [3, 4]]))]"
proof -
  let ?payload = "\<lambda>k :: u8. if k = 0 then [9] else [3, 4]"
  have sets: "{..<unat (2 :: u8)} = {0, 1}"
    by auto
  have "results_for 7 example_input
      (snd (snd (decode_run True (initial_diag 0) (gelf_new default_receive_config) example_input))) =
    replicate (unat (2 :: u8) - 1) (Ok None) @
    [Ok (Some (Chunked (map (\<lambda>j. ?payload (of_nat j)) [0..<unat (2 :: u8)])))]"
  proof (rule reassembly_any_order [where ks = "[1, 0]" and start = 6000000000])
    show "map snd (filter (\<lambda>(clk, src). chunk_of 7 src) example_input) =
        map (\<lambda>k. udp_chunk 7 k 2 (?payload k)) [1, 0]"
      by (simp add: example_input_def) (simp add: chunk_of_def MAGIC_CHUNKED_def)
    show "set [1, 0] = (of_nat :: nat \<Rightarrow> u8) ` {..<unat (2 :: u8)}"
      unfolding sets by auto
  qed (use example_clock_ok in \<open>auto simp: default_receive_config_def example_input_def\<close>)
  then show ?thesis
    by (simp add: upt_rec)
qed

text \<open>
  C2: the decoder refines the abstract machine. From a state that satisfies the invariant,
  with a clock past the timeout, one datagram (of any kind, accepted or refused) takes the
  two-index state to a state that represents what the abstract machine reaches, with the same
  result.
\<close>

theorem decode_refines:
  assumes "gelf_inv g" and "clock_ok (config g) clk"
  shows "spec_decode dbg (config g) clk (abs_gelf g) src =
    (abs_gelf (fst (snd (decode dbg clk d g src))), snd (snd (decode dbg clk d g src)))"
proof -
  obtain d' g' r where run: "decode dbg clk d g src = (d', g', r)"
    by (metis prod_cases3)
  show ?thesis
    using abs_decode [OF assms run] by (simp add: run)
qed

theorem decode_refines_witness:
  "spec_decode False default_receive_config example_clock (\<lambda>_. None) (udp_chunk 7 1 2 [3, 4]) =
   (abs_gelf (fst (snd (decode False example_clock (initial_diag 0)
      (gelf_new default_receive_config) (udp_chunk 7 1 2 [3, 4])))), Ok None)"
proof -
  have "snd (snd (decode False example_clock (initial_diag 0)
      (gelf_new default_receive_config) (udp_chunk 7 1 2 [3, 4]))) = Ok None"
    by (simp add: decode_def chunked_def gc_def example_clock_def gelf_new_def new_by_arrival_def
        default_receive_config_def timestamp_since_def system_time_sub_def since_epoch_def
        from_millis_def bt_below_def chunk_header_get_udp_chunk push_def hm_get_def arrival_ts_def)
  then show ?thesis
    using decode_refines [of "gelf_new default_receive_config" example_clock False
        "udp_chunk 7 1 2 [3, 4]" "initial_diag 0"] gelf_inv_new example_clock_ok
    by (simp add: gelf_new_facts)
qed

text \<open>
  C8: the state invariant and the memory bound. After any sequence of fewer than
  \<open>2 ^ 64\<close> datagrams, with any clock readings, in either build, the two indices name the
  same incomplete messages, every entry is incomplete and holds only chunks below its
  expected number, and the number of incomplete messages is at most the capacity (or one,
  for a capacity of zero).
\<close>

theorem decode_run_invariant:
  assumes "length ins < 2 ^ 64"
  shows "let g = fst (snd (decode_run dbg d (gelf_new cfg) ins))
    in gelf_inv g \<and> length (by_id g) = length (arrivals g) \<and>
       length (by_id g) \<le> max 1 (unat (incomplete_capacity cfg))"
proof -
  obtain d' g rs where run: "decode_run dbg d (gelf_new cfg) ins = (d', g, rs)"
    by (metis prod_cases3)
  have "gelf_inv g \<and> within_capacity g \<and> config g = cfg"
    using decode_run_inv [OF gelf_inv_new gelf_new_facts(2) _ run] assms
    by (simp add: gelf_new_facts)
  then show ?thesis
    using indices_same_length [of g] by (auto simp: run within_capacity_def)
qed

theorem decode_run_invariant_witness:
  "gelf_inv (fst (snd (decode_run True (initial_diag 0) (gelf_new default_receive_config)
     example_input)))"
  using decode_run_invariant [of example_input True "initial_diag 0" default_receive_config]
  by (simp add: Let_def example_input_def)

text \<open>
  C25: the panics of the decoder, exactly. A datagram makes \<open>decode\<close> panic only if it
  carries the chunk magic and either the clock is so early that subtracting the timeout
  leaves the range of \<open>SystemTime\<close>, or the build checks overflow, the collection went
  through, and the datagram has a whole header with sequence number 255.
\<close>

theorem decode_panics_iff:
  "panics (snd (snd (decode dbg clk d g src))) \<longleftrightarrow>
   peek_magic_bytes src = Some MAGIC_CHUNKED \<and>
   (clock_underflow (config g) clk \<or>
    dbg \<and> 12 \<le> length src \<and> src ! 10 = 255 \<and>
    int (from_millis (incomplete_timeout_ms (config g))) \<le> clock_gc clk)"
proof -
  obtain d' g' r where run: "chunked dbg clk (increment (Receive M_chunk) d) g src = (d', g', r)"
    by (metis prod_cases3)
  show ?thesis
    using chunked_Panic_iff [OF run] run by (simp add: decode_def Let_def single_detected)
qed

text \<open>
  C18: what the collection keeps. When it succeeds it removes every incomplete message if
  their number has reached the capacity, and otherwise exactly those whose first chunk
  arrived more than the timeout ago; the others keep their chunks.
\<close>

theorem gc_keeps_exactly_the_young:
  assumes "gelf_inv g" and "gc now d g = (d', g', Ok ())"
  shows "hm_get (by_id g') i =
    (if unat (incomplete_capacity (config g)) \<le> length (by_id g) then None
     else case hm_get (by_id g) i of
       None \<Rightarrow> None
     | Some (cs, ts) \<Rightarrow>
         if int (ts_time ts) < now - int (from_millis (incomplete_timeout_ms (config g)))
         then None else Some (cs, ts))"
  using assms(2)
proof (cases rule: gc_cases)
  case (kept since)
  let ?limit = "from_millis (incomplete_timeout_ms (config g))"
  have "ts < since \<longleftrightarrow> int (ts_time ts) < now - int ?limit" for ts
    using kept(2)
    by (auto simp: timestamp_since_def system_time_sub_def since_epoch_def
        less_unique_timestamp_def split: if_splits)
  with kept show ?thesis
    by (simp add: expire_by_id [OF assms(1)] split: option.splits)
qed (simp_all add: map_simps)

theorem gc_keeps_exactly_the_young_witness:
  "hm_get (by_id (fst (snd (gc 6000000000 (initial_diag 0) (gelf_new default_receive_config))))) 7
   = None"
proof -
  have "gc 6000000000 (initial_diag 0) (gelf_new default_receive_config) =
      (initial_diag 0, gelf_new default_receive_config, Ok ())"
    by (simp add: gc_def gelf_new_def new_by_arrival_def default_receive_config_def
        timestamp_since_def system_time_sub_def since_epoch_def from_millis_def bt_below_def)
  from gc_keeps_exactly_the_young [OF gelf_inv_new this, of 7] this show ?thesis
    by (simp add: gelf_new_def hm_get_def default_receive_config_def)
qed

end
