(* ===== verification/Received.thy ===== *)
theory Received
  imports Receive_Run
begin

text \<open>
  What the network side hands to the server loop (\<open>Received\<close> and \<open>into_received\<close> of
  \<open>server/mod.rs\<close>), and the interface of the closure \<open>receive\<close> that turns the bytes of a
  frame or a datagram into a message. The closure is state passing: it takes the clock it
  will read, the diagnostics, its own state and the bytes.
\<close>

datatype received = Incomplete | Complete message | Received_error error

fun into_received :: "message option result \<Rightarrow> received option result" where
  "into_received (Ok (Some m)) = Ok (Some (Complete m))"
| "into_received (Ok None) = Ok (Some Incomplete)"
| "into_received (Err e) = Ok (Some (Received_error e))"
| "into_received (Panic p) = Panic p"

type_synonym 'r receive_fn = "diag \<Rightarrow> 'r \<Rightarrow> bytes \<Rightarrow> diag \<times> 'r \<times> message option result"

lemma into_received_not_None [simp]: "into_received x \<noteq> Ok None"
  by (cases x rule: into_received.cases) auto

lemma into_received_not_Err [simp]: "into_received x \<noteq> Err e"
  by (cases x rule: into_received.cases) auto

lemma panics_into_received [simp]: "panics (into_received x) \<longleftrightarrow> panics x"
  by (cases x rule: into_received.cases) auto

text \<open>
  The contract of \<open>receive\<close>. Its state satisfies an invariant for a number of calls to
  come, each call uses one of them up, a call under a safe clock does not panic, and no call
  changes which clocks are safe or the level of the diagnostics.
\<close>

locale receiver =
  fixes recv :: "'c \<Rightarrow> 'r receive_fn"
    and inv :: "nat \<Rightarrow> 'r \<Rightarrow> bool"
    and safe :: "'c \<Rightarrow> 'r \<Rightarrow> bool"
  assumes recv_inv: "inv (Suc n) r \<Longrightarrow> recv c d r b = (d', r', x) \<Longrightarrow> inv n r'"
    and recv_weaken: "inv (Suc n) r \<Longrightarrow> inv n r"
    and recv_safe: "recv c d r b = (d', r', x) \<Longrightarrow> safe c' r' = safe c' r"
    and recv_no_panic: "safe c r \<Longrightarrow> recv c d r b = (d', r', x) \<Longrightarrow> \<not> panics x"
    and recv_level: "recv c d r b = (d', r', x) \<Longrightarrow> level_cell d' = level_cell d"

text \<open>
  The closure of \<open>main.rs\<close>, \<open>move |src| receive.decode(src)\<close>, meets the contract in a
  release build: its invariant is that of the decoder.
\<close>

definition decoder_ready :: "nat \<Rightarrow> gelf \<Rightarrow> bool" where
  "decoder_ready n g \<longleftrightarrow> gelf_inv g \<and> within_capacity g \<and> n \<le> counter_left g"

lemma decoder_ready_decode:
  assumes "decoder_ready (Suc n) g" and run: "decode dbg clk d g src = (d', g', r)"
  shows "decoder_ready n g'"
  using assms counter_left_decode [OF run] counter_left_pos [of g]
  by (auto simp: decoder_ready_def intro: gelf_inv_decode within_capacity_decode)

lemma decode_no_panic:
  assumes "\<not> clock_underflow (config g) clk" and "decode False clk d g src = (d', g', r)"
  shows "\<not> panics r"
  using assms chunked_Panic_iff
  by (auto simp: decode_def Let_def single_detected split: if_splits)

interpretation gelf_receiver: receiver "decode False" decoder_ready
  "\<lambda>clk g. \<not> clock_underflow (config g) clk"
proof
  show "decoder_ready n g'" if "decoder_ready (Suc n) g" "decode False clk d g b = (d', g', x)"
    for n g clk d b d' g' x
    using that by (rule decoder_ready_decode)
  show "decoder_ready n g" if "decoder_ready (Suc n) g" for n g
    using that by (simp add: decoder_ready_def)
qed (use decode_frame decode_no_panic in auto)

end
