(* ===== verification/Tcp_Decode.thy ===== *)
theory Tcp_Decode
  imports Received
begin

text \<open>
  The frame decoder of \<open>server/tcp.rs\<close> (\<open>Decode\<close>): messages on a TCP stream end with a zero
  byte; a message longer than the limit is skipped. The decoder remembers how far it has
  searched (\<open>read_head\<close>) and whether it is skipping (\<open>discarding\<close>).
\<close>

section \<open>The decoder\<close>

record 'r tcp_decoder =
  max_size_bytes :: usize
  read_head :: nat
  discarding :: bool
  receive_state :: 'r

definition tcp_decode_new :: "usize \<Rightarrow> 'r \<Rightarrow> 'r tcp_decoder" where
  "tcp_decode_new m r =
     \<lparr>max_size_bytes = m, read_head = 0, discarding = False, receive_state = r\<rparr>"

text \<open>\<open>Iterator::position\<close>.\<close>

fun position :: "('a \<Rightarrow> bool) \<Rightarrow> 'a list \<Rightarrow> nat option" where
  "position P [] = None"
| "position P (x # xs) = (if P x then Some 0 else map_option Suc (position P xs))"

text \<open>
  \<open>Decoder::decode\<close>: one turn of the loop \<open>'read_frame\<close> per call of the function. The
  result is the diagnostics, the decoder, what is left of the buffer, and the outcome:
  \<open>None\<close> asks for more data.
\<close>

function tcp_decode ::
  "'r receive_fn \<Rightarrow> diag \<Rightarrow> 'r tcp_decoder \<Rightarrow> bytes \<Rightarrow>
   diag \<times> 'r tcp_decoder \<times> bytes \<times> received option result" where
  "tcp_decode recv d dec src =
     (let read_to = min (unat (saturating_add (max_size_bytes dec) 1)) (length src)
      in case slice_from (read_head dec) src of
           Err e \<Rightarrow> (d, dec, src, Err e)
         | Panic p \<Rightarrow> (d, dec, src, Panic p)
         | Ok tail \<Rightarrow>
             (case (discarding dec, position (\<lambda>b. b = 0) tail) of
                (False, Some offset) \<Rightarrow>
                  (let frame_end = offset + read_head dec
                   in if unat (max_size_bytes dec) < frame_end
                      then tcp_decode recv (increment (Server M_tcp_msg_overflow) d)
                             (dec\<lparr>discarding := True\<rparr>) src
                      else
                        (let frame = take (frame_end + 1) src
                         in case recv d (receive_state dec) (take (length frame - 1) frame) of
                              (d', r, x) \<Rightarrow>
                                (d', dec\<lparr>read_head := 0, receive_state := r\<rparr>,
                                 drop (frame_end + 1) src, into_received x)))
              | (False, None) \<Rightarrow>
                  if unat (max_size_bytes dec) < length src
                  then tcp_decode recv (increment (Server M_tcp_msg_overflow) d)
                         (dec\<lparr>discarding := True\<rparr>) src
                  else (d, dec\<lparr>read_head := read_to\<rparr>, src, Ok None)
              | (True, Some offset) \<Rightarrow>
                  tcp_decode recv d (dec\<lparr>discarding := False, read_head := 0\<rparr>)
                    (drop (offset + read_head dec + 1) src)
              | (True, None) \<Rightarrow>
                  if drop read_to src = []
                  then (d, dec\<lparr>read_head := 0\<rparr>, drop read_to src, Ok None)
                  else tcp_decode recv d (dec\<lparr>read_head := 0\<rparr>) (drop read_to src)))"
  by pat_completeness auto

lemma position_less: "position P xs = Some i \<Longrightarrow> i < length xs"
  by (induction P xs arbitrary: i rule: position.induct) (auto split: if_splits)

lemma advance_less: "unat (saturating_add m 1) \<le> n \<Longrightarrow> n - unat (saturating_add m 1) < n"
  using saturating_add_1_pos [of m] by linarith

termination tcp_decode
  by (relation "measure (\<lambda>(recv, d, dec, src).
      2 * length src + (if discarding dec then 0 else 1))")
    (auto simp: slice_from_def min_def advance_less dest!: sym [THEN position_less]
      split: if_splits)

declare tcp_decode.simps [simp del]

text \<open>
  \<open>Decoder::decode_eof\<close>: at the end of the stream what is left after the last delimiter
  counts as a frame.
\<close>

definition tcp_decode_eof ::
  "'r receive_fn \<Rightarrow> diag \<Rightarrow> 'r tcp_decoder \<Rightarrow> bytes \<Rightarrow>
   diag \<times> 'r tcp_decoder \<times> bytes \<times> received option result" where
  "tcp_decode_eof recv d dec src =
     (case tcp_decode recv d dec src of
        (d, dec, src, Ok (Some frame)) \<Rightarrow> (d, dec, src, Ok (Some frame))
      | (d, dec, src, Ok None) \<Rightarrow>
          if src = [] then (d, dec, src, Ok None)
          else
            (case recv d (receive_state dec) src of
               (d', r, x) \<Rightarrow> (d', dec\<lparr>read_head := 0, receive_state := r\<rparr>, [], into_received x))
      | (d, dec, src, Err e) \<Rightarrow> (d, dec, src, Err e)
      | (d, dec, src, Panic p) \<Rightarrow> (d, dec, src, Panic p))"

end
