(* ===== verification/Tcp_Frames.thy ===== *)
theory Tcp_Frames
  imports Tcp_Decode
begin

text \<open>
  What the frame decoder promises. A reference that scans the buffer from its start, with
  no read head, gives the same frames and the same state; and over a whole connection the
  frames handed to \<open>receive\<close> are exactly the zero-terminated pieces of the stream that
  are within the limit, in order, however the stream is cut into reads and however often
  the decoder is polled.
\<close>

section \<open>The reference\<close>

abbreviation frame :: "bytes \<Rightarrow> bytes" where
  "frame bs \<equiv> takeWhile (\<lambda>b. b \<noteq> 0) bs"

abbreviation after_frame :: "bytes \<Rightarrow> bytes" where
  "after_frame bs \<equiv> drop (length (frame bs) + 1) bs"

lemma frame_less: "0 \<in> set bs \<Longrightarrow> length (frame bs) < length bs"
  by (induction bs) auto

lemma after_frame_less [termination_simp]:
  "0 \<in> set bs \<Longrightarrow> length bs - Suc (length (frame bs)) < length bs"
  using frame_less [of bs] by simp

lemma take_frame: "take (length (frame bs)) bs = frame bs"
  by (metis takeWhile_eq_take)

text \<open>
  The next frame of a buffer: the frame, the number of messages found too long on the way,
  whether an overlong message is still being skipped, and the rest of the buffer.
\<close>

fun next_frame :: "nat \<Rightarrow> bool \<Rightarrow> bytes \<Rightarrow> bytes option \<times> nat \<times> bool \<times> bytes" where
  "next_frame m skip buf =
     (if 0 \<in> set buf then
        (if skip then next_frame m False (after_frame buf)
         else if m < length (frame buf)
         then (case next_frame m False (after_frame buf) of (f, k, st) \<Rightarrow> (f, Suc k, st))
         else (Some (frame buf), 0, False, after_frame buf))
      else if skip then (None, 0, True, [])
      else if m < length buf then (None, 1, True, [])
      else (None, 0, False, buf))"

declare next_frame.simps [simp del]

lemma next_frame_simps:
  "0 \<in> set buf \<Longrightarrow> next_frame m True buf = next_frame m False (after_frame buf)"
  "0 \<in> set buf \<Longrightarrow> m < length (frame buf) \<Longrightarrow> next_frame m False buf =
     (case next_frame m False (after_frame buf) of (f, k, st) \<Rightarrow> (f, Suc k, st))"
  "0 \<in> set buf \<Longrightarrow> length (frame buf) \<le> m \<Longrightarrow>
     next_frame m False buf = (Some (frame buf), 0, False, after_frame buf)"
  "0 \<notin> set buf \<Longrightarrow> next_frame m True buf = (None, 0, True, [])"
  "0 \<notin> set buf \<Longrightarrow> m < length buf \<Longrightarrow> next_frame m False buf = (None, 1, True, [])"
  "0 \<notin> set buf \<Longrightarrow> length buf \<le> m \<Longrightarrow> next_frame m False buf = (None, 0, False, buf)"
  by (simp_all add: next_frame.simps [of m _ buf])

section \<open>The decoder equals the reference\<close>

text \<open>The read head is inside the buffer and has passed no delimiter.\<close>

definition head_ok :: "'r tcp_decoder \<Rightarrow> bytes \<Rightarrow> bool" where
  "head_ok dec src \<longleftrightarrow> read_head dec \<le> length src \<and> 0 \<notin> set (take (read_head dec) src)"

lemma position_zero:
  "position (\<lambda>b. b = 0) xs = (if 0 \<in> set xs then Some (length (frame xs)) else None)"
  by (induction xs) auto

lemma search_from_head:
  assumes "head_ok dec src"
  shows "0 \<in> set (drop (read_head dec) src) \<longleftrightarrow> 0 \<in> set src"
    and "0 \<in> set src \<Longrightarrow> length (frame (drop (read_head dec) src)) + read_head dec = length (frame src)"
proof -
  have clean: "0 \<notin> set (take (read_head dec) src)" and len: "read_head dec \<le> length src"
    using assms by (auto simp: head_ok_def)
  show "0 \<in> set (drop (read_head dec) src) \<longleftrightarrow> 0 \<in> set src"
    using clean by (metis Un_iff append_take_drop_id set_append)
  have eq: "frame src = take (read_head dec) src @ frame (drop (read_head dec) src)"
    using takeWhile_append2 [of "take (read_head dec) src" "\<lambda>b. b \<noteq> 0" "drop (read_head dec) src"]
      clean by fastforce
  show "length (frame (drop (read_head dec) src)) + read_head dec = length (frame src)"
    using len by (subst eq) simp
qed

text \<open>One outcome of the reference, as the decoder reports it.\<close>

definition deliver ::
  "'r receive_fn \<Rightarrow> diag \<Rightarrow> 'r tcp_decoder \<Rightarrow> bytes option \<times> nat \<times> bool \<times> bytes \<Rightarrow>
   diag \<times> 'r tcp_decoder \<times> bytes \<times> received option result" where
  "deliver recv d dec out =
     (case out of (f, k, skip, rest) \<Rightarrow>
        let d1 = (increment (Server M_tcp_msg_overflow) ^^ k) d
        in case f of
             None \<Rightarrow> (d1, dec\<lparr>read_head := length rest, discarding := skip\<rparr>, rest, Ok None)
           | Some b \<Rightarrow>
               (case recv d1 (receive_state dec) b of
                  (d2, r, x) \<Rightarrow>
                    (d2, dec\<lparr>read_head := 0, discarding := skip, receive_state := r\<rparr>, rest,
                     into_received x)))"

lemma deliver_read_head [simp]:
  "deliver recv d (dec\<lparr>read_head := h\<rparr>) out = deliver recv d dec out"
  "deliver recv d (dec\<lparr>discarding := b\<rparr>) out = deliver recv d dec out"
  "deliver recv d (dec\<lparr>read_head := h, discarding := b\<rparr>) out = deliver recv d dec out"
  by (auto simp: deliver_def Let_def split: prod.splits option.splits)

lemma deliver_overflow:
  "deliver recv (increment (Server M_tcp_msg_overflow) d) dec out =
   deliver recv d dec (case out of (f, k, st) \<Rightarrow> (f, Suc k, st))"
  by (auto simp: deliver_def Let_def funpow_swap1 split: prod.splits option.splits)

lemma read_to_whole:
  "length src \<le> unat m \<Longrightarrow> min (unat (saturating_add m 1)) (length src) = length src"
  using capacity_below_counter [of m] by (auto simp: unat_saturating_add)

text \<open>The turns of the loop, in terms of the whole buffer.\<close>

lemma tcp_decode_found:
  assumes "head_ok dec src" and zero: "0 \<in> set src"
  shows "discarding dec \<Longrightarrow> tcp_decode recv d dec src =
      tcp_decode recv d (dec\<lparr>discarding := False, read_head := 0\<rparr>) (after_frame src)"
    and "\<not> discarding dec \<Longrightarrow> unat (max_size_bytes dec) < length (frame src) \<Longrightarrow> tcp_decode recv d dec src =
      tcp_decode recv (increment (Server M_tcp_msg_overflow) d) (dec\<lparr>discarding := True\<rparr>) src"
    and "\<not> discarding dec \<Longrightarrow> length (frame src) \<le> unat (max_size_bytes dec) \<Longrightarrow> tcp_decode recv d dec src =
      deliver recv d dec (Some (frame src), 0, False, after_frame src)"
proof -
  have slice: "slice_from (read_head dec) src = Ok (drop (read_head dec) src)"
    using assms(1) by (simp add: slice_from_def head_ok_def)
  note search = search_from_head [OF assms(1)]
  have same: "dec\<lparr>read_head := 0, discarding := False, receive_state := r\<rparr> =
      dec\<lparr>read_head := 0, receive_state := r\<rparr>" if "\<not> discarding dec" for r
    using that by (cases dec) simp
  note unfold = tcp_decode.simps [of recv d dec src] slice position_zero search(1) search(2) [OF zero] zero
  show "discarding dec \<Longrightarrow> tcp_decode recv d dec src =
      tcp_decode recv d (dec\<lparr>discarding := False, read_head := 0\<rparr>) (after_frame src)"
    "\<not> discarding dec \<Longrightarrow> unat (max_size_bytes dec) < length (frame src) \<Longrightarrow> tcp_decode recv d dec src =
      tcp_decode recv (increment (Server M_tcp_msg_overflow) d) (dec\<lparr>discarding := True\<rparr>) src"
    by (simp_all add: unfold)
  show "\<not> discarding dec \<Longrightarrow> length (frame src) \<le> unat (max_size_bytes dec) \<Longrightarrow> tcp_decode recv d dec src =
      deliver recv d dec (Some (frame src), 0, False, after_frame src)"
    using frame_less [OF zero] by (simp add: unfold same deliver_def Let_def take_frame split: prod.splits)
qed

lemma tcp_decode_missing:
  assumes "head_ok dec src" and zero: "0 \<notin> set src"
  defines "read_to \<equiv> min (unat (saturating_add (max_size_bytes dec) 1)) (length src)"
  shows "discarding dec \<Longrightarrow> tcp_decode recv d dec src =
      (if drop read_to src = [] then deliver recv d dec (None, 0, True, [])
       else tcp_decode recv d (dec\<lparr>read_head := 0\<rparr>) (drop read_to src))"
    and "\<not> discarding dec \<Longrightarrow> unat (max_size_bytes dec) < length src \<Longrightarrow> tcp_decode recv d dec src =
      tcp_decode recv (increment (Server M_tcp_msg_overflow) d) (dec\<lparr>discarding := True\<rparr>) src"
    and "\<not> discarding dec \<Longrightarrow> length src \<le> unat (max_size_bytes dec) \<Longrightarrow> tcp_decode recv d dec src =
      deliver recv d dec (None, 0, False, src)"
proof -
  have slice: "slice_from (read_head dec) src = Ok (drop (read_head dec) src)"
    using assms(1) by (simp add: slice_from_def head_ok_def)
  have same: "dec\<lparr>read_head := h, discarding := discarding dec\<rparr> = dec\<lparr>read_head := h\<rparr>" for h
    by (cases dec) simp
  note unfold = tcp_decode.simps [of recv d dec src] slice position_zero search_from_head(1) [OF assms(1)] zero
    deliver_def read_to_def
  show "discarding dec \<Longrightarrow> tcp_decode recv d dec src =
      (if drop read_to src = [] then deliver recv d dec (None, 0, True, [])
       else tcp_decode recv d (dec\<lparr>read_head := 0\<rparr>) (drop read_to src))"
    using same [of 0] by (simp add: unfold Let_def)
  show "\<not> discarding dec \<Longrightarrow> unat (max_size_bytes dec) < length src \<Longrightarrow> tcp_decode recv d dec src =
      tcp_decode recv (increment (Server M_tcp_msg_overflow) d) (dec\<lparr>discarding := True\<rparr>) src"
    by (simp add: unfold)
  show "\<not> discarding dec \<Longrightarrow> length src \<le> unat (max_size_bytes dec) \<Longrightarrow> tcp_decode recv d dec src =
      deliver recv d dec (None, 0, False, src)"
    using same [of "length src"] by (simp add: unfold read_to_whole)
qed

lemma tcp_decode_reference_lemma:
  "head_ok dec src \<Longrightarrow>
   tcp_decode recv d dec src =
   deliver recv d dec (next_frame (unat (max_size_bytes dec)) (discarding dec) src)"
proof (induction "2 * length src + (if discarding dec then 0 else 1)" arbitrary: d dec src rule: less_induct)
  case less
  let ?d = "increment (Server M_tcp_msg_overflow) d"
  have skipping: "tcp_decode recv ?d (dec\<lparr>discarding := True\<rparr>) src =
      deliver recv ?d dec (next_frame (unat (max_size_bytes dec)) True src)" if "\<not> discarding dec"
    using less(1) [of src "dec\<lparr>discarding := True\<rparr>"] less(2) that by (simp add: head_ok_def)
  show ?case
  proof (cases "0 \<in> set src")
    case True
    have "tcp_decode recv d (dec\<lparr>discarding := False, read_head := 0\<rparr>) (after_frame src) =
        deliver recv d dec (next_frame (unat (max_size_bytes dec)) False (after_frame src))"
      using less(1) [of "after_frame src" "dec\<lparr>discarding := False, read_head := 0\<rparr>"] frame_less [OF True]
      by (simp add: head_ok_def)
    then show ?thesis
      using tcp_decode_found [OF less(2) True] skipping
      by (cases "discarding dec"; cases "unat (max_size_bytes dec) < length (frame src)")
        (simp_all add: next_frame_simps True deliver_overflow)
  next
    case False
    let ?rest = "drop (min (unat (saturating_add (max_size_bytes dec) 1)) (length src)) src"
    have "0 \<notin> set ?rest" using False by (metis in_set_dropD)
    moreover have "length ?rest < length src" if "?rest \<noteq> []"
      using that saturating_add_1_pos [of "max_size_bytes dec"] by (auto simp: min_def split: if_splits)
    ultimately have "tcp_decode recv d (dec\<lparr>read_head := 0\<rparr>) ?rest = deliver recv d dec (None, 0, True, [])"
      if "?rest \<noteq> []" "discarding dec"
      using less(1) [of ?rest "dec\<lparr>read_head := 0\<rparr>"] that by (simp add: head_ok_def next_frame_simps)
    then show ?thesis
      using tcp_decode_missing [OF less(2) False] skipping
      by (cases "discarding dec"; cases "unat (max_size_bytes dec) < length src")
        (simp_all add: next_frame_simps False deliver_overflow)
  qed
qed

section \<open>All the frames of a buffer\<close>

text \<open>The zero-terminated pieces of a stream, and what follows the last of them.\<close>

fun complete_frames :: "bytes \<Rightarrow> bytes list" where
  "complete_frames bs =
     (if 0 \<in> set bs then frame bs # complete_frames (after_frame bs) else [])"

fun open_frame :: "bytes \<Rightarrow> bytes" where
  "open_frame bs = (if 0 \<in> set bs then open_frame (after_frame bs) else bs)"

declare complete_frames.simps [simp del] open_frame.simps [simp del]

text \<open>
  The frames that polling a buffer to the end delivers, starting in the middle of an
  overlong message or not, and the state it stops in.
\<close>

fun all_frames :: "nat \<Rightarrow> bool \<Rightarrow> bytes \<Rightarrow> bytes list \<times> bool \<times> bytes" where
  "all_frames m skip buf =
     (if 0 \<in> set buf then
        (case all_frames m False (after_frame buf) of
           (fs, st) \<Rightarrow> (if skip \<or> m < length (frame buf) then fs else frame buf # fs, st))
      else if skip \<or> m < length buf then ([], True, [])
      else ([], False, buf))"

declare all_frames.simps [simp del]

lemma all_frames_simps:
  "0 \<in> set buf \<Longrightarrow> all_frames m True buf = all_frames m False (after_frame buf)"
  "0 \<in> set buf \<Longrightarrow> m < length (frame buf) \<Longrightarrow>
     all_frames m False buf = all_frames m False (after_frame buf)"
  "0 \<in> set buf \<Longrightarrow> length (frame buf) \<le> m \<Longrightarrow> all_frames m False buf =
     (case all_frames m False (after_frame buf) of (fs, st) \<Rightarrow> (frame buf # fs, st))"
  "0 \<notin> set buf \<Longrightarrow> all_frames m True buf = ([], True, [])"
  "0 \<notin> set buf \<Longrightarrow> m < length buf \<Longrightarrow> all_frames m False buf = ([], True, [])"
  "0 \<notin> set buf \<Longrightarrow> length buf \<le> m \<Longrightarrow> all_frames m False buf = ([], False, buf)"
  by (simp_all add: all_frames.simps [of m _ buf])

lemma all_frames_next:
  "all_frames m skip buf =
   (case next_frame m skip buf of
      (None, k, st) \<Rightarrow> ([], st)
    | (Some f, k, skip', rest) \<Rightarrow> (case all_frames m skip' rest of (fs, st) \<Rightarrow> (f # fs, st)))"
proof (induction m skip buf rule: next_frame.induct)
  case (1 m skip buf)
  consider "0 \<in> set buf" skip | "0 \<in> set buf" "\<not> skip" "m < length (frame buf)"
    | "0 \<in> set buf" "\<not> skip" "length (frame buf) \<le> m" | "0 \<notin> set buf" skip
    | "0 \<notin> set buf" "\<not> skip" "m < length buf" | "0 \<notin> set buf" "\<not> skip" "length buf \<le> m"
    by fastforce
  then show ?case
  proof cases
    case 2
    obtain f k st where "next_frame m False (after_frame buf) = (f, k, st)"
      by (metis prod_cases3)
    with 2 "1.IH"(2) show ?thesis
      by (simp add: all_frames_simps next_frame_simps split: option.splits)
  qed (use "1.IH"(1) in \<open>simp_all add: all_frames_simps next_frame_simps\<close>)
qed

lemma all_frames_complete:
  "all_frames m False bs =
   (filter (\<lambda>f. length f \<le> m) (complete_frames bs),
    if m < length (open_frame bs) then (True, []) else (False, open_frame bs))"
proof (induction bs rule: complete_frames.induct)
  case (1 bs)
  show ?case
  proof (cases "0 \<in> set bs")
    case True
    then show ?thesis
      using "1.IH" by (cases "m < length (frame bs)")
        (simp_all add: all_frames_simps complete_frames.simps [of bs] open_frame.simps [of bs])
  next
    case False
    then show ?thesis
      by (cases "m < length bs")
        (simp_all add: all_frames_simps complete_frames.simps [of bs] open_frame.simps [of bs])
  qed
qed

text \<open>Frames of a stream that arrives in two parts: where the cut is does not matter.\<close>

lemma frame_append:
  "0 \<in> set xs \<Longrightarrow> frame (xs @ ys) = frame xs"
  "0 \<notin> set xs \<Longrightarrow> frame (xs @ ys) = xs @ frame ys"
  by (induction xs) auto

lemma after_frame_append:
  "0 \<in> set xs \<Longrightarrow> after_frame (xs @ ys) = after_frame xs @ ys"
  "0 \<notin> set xs \<Longrightarrow> after_frame (xs @ ys) = after_frame ys"
  using frame_less [of xs] by (simp_all add: frame_append)

lemma all_frames_skip_append:
  "0 \<notin> set xs \<Longrightarrow> all_frames m True (xs @ ys) = all_frames m True ys"
  by (cases "0 \<in> set ys") (simp_all add: all_frames_simps frame_append)

lemma all_frames_too_long:
  assumes "0 \<notin> set xs" and "m < length xs"
  shows "all_frames m False (xs @ ys) = all_frames m True ys"
  using assms
  by (cases "0 \<in> set ys") (simp_all add: all_frames_simps frame_append)

lemma all_frames_append:
  "all_frames m skip (xs @ ys) =
   (case all_frames m skip xs of (fs, skip', buf) \<Rightarrow>
      (case all_frames m skip' (buf @ ys) of (fs', st) \<Rightarrow> (fs @ fs', st)))"
proof (induction m skip xs rule: all_frames.induct)
  case (1 m skip xs)
  show ?case
  proof (cases "0 \<in> set xs")
    case True
    then have IH: "all_frames m False (after_frame (xs @ ys)) =
        (case all_frames m False (after_frame xs) of (fs, skip', buf) \<Rightarrow>
           (case all_frames m skip' (buf @ ys) of (fs', st) \<Rightarrow> (fs @ fs', st)))"
      using "1.IH" by (simp only: after_frame_append)
    from True show ?thesis
      using IH frame_append(1) [OF True, of ys]
      by (cases skip; cases "m < length (frame xs)")
        (simp_all add: all_frames_simps split: prod.splits del: drop_append)
  next
    case False
    then show ?thesis
      by (cases skip; cases "m < length xs")
        (simp_all add: all_frames_simps all_frames_skip_append all_frames_too_long
          split: prod.splits)
  qed
qed

section \<open>A connection\<close>

text \<open>
  Bytes arrive in the buffer of a connection, and the decoder is polled, in any order. The
  argument of a poll is the clock that \<open>receive\<close> reads.
\<close>

datatype 'c conn_event = Arrive bytes | Poll 'c

fun conn_run ::
  "('c \<Rightarrow> 'r receive_fn) \<Rightarrow> diag \<times> 'r tcp_decoder \<times> bytes \<Rightarrow> 'c conn_event list \<Rightarrow>
   (diag \<times> 'r tcp_decoder \<times> bytes) \<times> received option result list" where
  "conn_run recv st [] = (st, [])"
| "conn_run recv (d, dec, buf) (Arrive bs # evs) = conn_run recv (d, dec, buf @ bs) evs"
| "conn_run recv (d, dec, buf) (Poll c # evs) =
     (case tcp_decode (recv c) d dec buf of
        (d', dec', buf', r) \<Rightarrow>
          (case conn_run recv (d', dec', buf') evs of (st, rs) \<Rightarrow> (st, r # rs)))"

fun arrived :: "'c conn_event list \<Rightarrow> bytes" where
  "arrived [] = []"
| "arrived (Arrive bs # evs) = bs @ arrived evs"
| "arrived (Poll c # evs) = arrived evs"

text \<open>A receive function that also keeps a log of the frames it is given.\<close>

definition logged :: "'r receive_fn \<Rightarrow> ('r \<times> bytes list) receive_fn" where
  "logged recv d s b = (case recv d (fst s) b of (d', r, x) \<Rightarrow> (d', (r, snd s @ [b]), x))"

lemma next_frame_None:
  "next_frame m skip buf = (None, k, skip', rest) \<Longrightarrow>
   0 \<notin> set rest \<and> length rest \<le> m \<and> (skip' \<longrightarrow> rest = [])"
proof (induction m skip buf arbitrary: k rule: next_frame.induct)
  case (1 m skip buf)
  then show ?case
    by (auto simp: next_frame.simps [of m skip buf] split: if_splits prod.splits)
qed

lemma all_frames_dry:
  "next_frame m skip buf = (None, k, skip', rest) \<Longrightarrow>
   all_frames m skip' rest = ([], skip', rest) \<and> all_frames m skip buf = ([], skip', rest)"
  using next_frame_None [of m skip buf k skip' rest] all_frames_next [of m skip buf]
  by (cases skip') (auto simp: all_frames_simps)

lemma head_ok_append: "head_ok dec buf \<Longrightarrow> head_ok dec (buf @ bs)"
  by (simp add: head_ok_def)

text \<open>The read head stays inside the buffer, whatever \<open>receive\<close> does.\<close>

lemma tcp_decode_head_ok:
  assumes "head_ok dec buf" and "tcp_decode recv d dec buf = (d', dec', buf', r)"
  shows "head_ok dec' buf' \<and> max_size_bytes dec' = max_size_bytes dec"
proof -
  obtain f k skip rest where out:
    "next_frame (unat (max_size_bytes dec)) (discarding dec) buf = (f, k, skip, rest)"
    by (metis prod_cases4)
  show ?thesis
    using assms(2) next_frame_None [of "unat (max_size_bytes dec)" "discarding dec" buf k skip rest]
      out
    by (auto simp: tcp_decode_reference_lemma [OF assms(1)] deliver_def head_ok_def Let_def
        split: option.splits prod.splits)
qed

text \<open>What a poll hands to \<open>receive\<close> is the next of the frames that are still to come.\<close>

lemma poll_logged:
  assumes ok: "head_ok dec buf" and run: "tcp_decode (logged recv) d dec buf = (d', dec', buf', r)"
  defines "m \<equiv> unat (max_size_bytes dec)"
  shows "\<exists>new. snd (receive_state dec') = snd (receive_state dec) @ new \<and>
    all_frames m (discarding dec) buf =
      (new @ fst (all_frames m (discarding dec') buf'), snd (all_frames m (discarding dec') buf')) \<and>
    (r = Ok None \<longrightarrow> new = [] \<and> all_frames m (discarding dec') buf' = ([], discarding dec', buf') \<and>
      length buf' \<le> m)"
proof -
  obtain f k skip rest where out: "next_frame m (discarding dec) buf = (f, k, skip, rest)"
    by (metis prod_cases4)
  show ?thesis
  proof (cases f)
    case None
    with run out all_frames_dry [of m "discarding dec" buf k skip rest]
      next_frame_None [of m "discarding dec" buf k skip rest]
    show ?thesis
      by (simp add: tcp_decode_reference_lemma [OF ok] deliver_def flip: m_def) auto
  next
    case (Some b)
    with run out all_frames_next [of m "discarding dec" buf] show ?thesis
      by (auto simp: tcp_decode_reference_lemma [OF ok] deliver_def logged_def Let_def
          simp flip: m_def split: prod.splits)
  qed
qed

lemma conn_run_frames:
  assumes "head_ok dec buf" and "m = unat (max_size_bytes dec)"
    and "log = snd (receive_state dec)"
    and "all_frames m False past = (log @ fst (all_frames m (discarding dec) buf),
      snd (all_frames m (discarding dec) buf))"
    and "conn_run (\<lambda>c. logged (recv c)) (d, dec, buf) evs = ((d', dec', buf'), rs)"
  shows "head_ok dec' buf' \<and> max_size_bytes dec' = max_size_bytes dec \<and>
    all_frames m False (past @ arrived evs) =
      (snd (receive_state dec') @ fst (all_frames m (discarding dec') buf'),
       snd (all_frames m (discarding dec') buf'))"
  using assms
proof (induction evs arbitrary: d dec buf rs log past)
  case Nil
  then show ?case by simp
next
  case (Cons ev evs)
  show ?case
  proof (cases ev)
    case (Arrive bs)
    have "all_frames m False (past @ bs) = (log @ fst (all_frames m (discarding dec) (buf @ bs)),
        snd (all_frames m (discarding dec) (buf @ bs)))"
      using Cons.prems(4) all_frames_append [of m False past bs]
        all_frames_append [of m "discarding dec" buf bs]
      by (auto split: prod.splits)
    from Cons.IH [OF head_ok_append [OF Cons.prems(1)] Cons.prems(2,3) this] Cons.prems(5) Arrive
    show ?thesis by simp
  next
    case (Poll c)
    obtain d1 dec1 buf1 r where step: "tcp_decode (logged (recv c)) d dec buf = (d1, dec1, buf1, r)"
      by (metis prod_cases4)
    from poll_logged [OF Cons.prems(1) step] obtain new where
      new: "snd (receive_state dec1) = log @ new"
      "all_frames m False past = (snd (receive_state dec1) @
        fst (all_frames m (discarding dec1) buf1), snd (all_frames m (discarding dec1) buf1))"
      using Cons.prems(2-4) by auto
    note ok = tcp_decode_head_ok [OF Cons.prems(1) step]
    obtain rs1 where rest: "conn_run (\<lambda>c. logged (recv c)) (d1, dec1, buf1) evs =
        ((d', dec', buf'), rs1)"
      using Cons.prems(5) Poll step by (auto split: prod.splits)
    from Cons.IH [OF conjunct1 [OF ok] _ refl new(2) rest] ok Cons.prems(2) Poll
    show ?thesis by simp
  qed
qed

lemma conn_run_append:
  "conn_run recv st (evs @ evs') =
   (case conn_run recv st evs of (st1, rs1) \<Rightarrow>
      (case conn_run recv st1 evs' of (st2, rs2) \<Rightarrow> (st2, rs1 @ rs2)))"
  by (induction recv st evs rule: conn_run.induct) (auto split: prod.splits)

lemma arrived_append: "arrived (evs @ evs') = arrived evs @ arrived evs'"
  by (induction evs rule: arrived.induct) auto

lemma head_ok_new: "head_ok (tcp_decode_new m r) []"
  by (simp add: head_ok_def tcp_decode_new_def)

lemma conn_run_new_frames:
  assumes "conn_run (\<lambda>c. logged (recv c)) (d, tcp_decode_new m (r, []), []) evs =
    ((d', dec, buf), rs)"
  shows "head_ok dec buf \<and> max_size_bytes dec = m \<and>
    all_frames (unat m) False (arrived evs) =
      (snd (receive_state dec) @ fst (all_frames (unat m) (discarding dec) buf),
       snd (all_frames (unat m) (discarding dec) buf))"
  using conn_run_frames [OF head_ok_new refl refl _ assms, of "[]"]
  by (simp add: tcp_decode_new_def all_frames_simps)

text \<open>A poll that finds nothing leaves the log alone, and nothing is left to find.\<close>

lemma conn_run_dry:
  assumes run: "conn_run (\<lambda>c. logged (recv c)) (d, tcp_decode_new m (r, []), []) (evs @ [Poll c]) =
    ((d', dec, buf), rs @ [Ok None])"
  shows "head_ok dec buf \<and> max_size_bytes dec = m \<and>
    all_frames (unat m) False (arrived evs) = (snd (receive_state dec), discarding dec, buf) \<and>
    all_frames (unat m) (discarding dec) buf = ([], discarding dec, buf)"
proof -
  let ?recv = "\<lambda>c. logged (recv c)"
  obtain d1 dec1 buf1 rs1 where first:
    "conn_run ?recv (d, tcp_decode_new m (r, []), []) evs = ((d1, dec1, buf1), rs1)"
    by (metis prod.exhaust)
  have step: "tcp_decode (?recv c) d1 dec1 buf1 = (d', dec, buf, Ok None)"
    using run first by (auto simp: conn_run_append split: prod.splits)
  note before = conn_run_new_frames [OF first]
  from poll_logged [OF conjunct1 [OF before] step] before
    tcp_decode_head_ok [OF conjunct1 [OF before] step]
  show ?thesis by auto
qed

section \<open>Properties\<close>

text \<open>
  C15: the frame decoder equals its reference. Whenever the read head is inside the buffer
  and has passed no delimiter, \<open>decode\<close> returns what the scan from the start of the
  buffer returns: the same frame to \<open>receive\<close>, the same rest, the same skipping state,
  and one count of the overflow metric per message found too long.
\<close>

theorem tcp_decode_reference:
  assumes "head_ok dec src"
  shows "tcp_decode recv d dec src =
    deliver recv d dec (next_frame (unat (max_size_bytes dec)) (discarding dec) src)"
  using assms by (rule tcp_decode_reference_lemma)

definition log_only :: "bytes list receive_fn" where
  "log_only d s b = (d, s @ [b], Ok None)"

theorem tcp_decode_reference_witness:
  "tcp_decode log_only (initial_diag 0) (tcp_decode_new 2 []) [1, 2, 3, 0, 4, 0, 5] =
   (increment (Server M_tcp_msg_overflow) (initial_diag 0), tcp_decode_new 2 [[4]], [5],
    Ok (Some Incomplete))"
  using tcp_decode_reference [of "tcp_decode_new 2 []" "[1, 2, 3, 0, 4, 0, 5]" log_only
      "initial_diag 0"]
  by (simp add: head_ok_def tcp_decode_new_def next_frame.simps deliver_def log_only_def)

text \<open>
  C4: framing does not depend on how the stream is cut. Take a new connection with any
  \<open>receive\<close> function, let bytes arrive in any pieces with polls anywhere in between, and
  poll until the decoder asks for more data. Then \<open>receive\<close> has been called with exactly
  the zero-terminated pieces of the whole stream that are within the limit, in order, and
  the buffer holds the unfinished piece (nothing, once it is over the limit).
\<close>

theorem tcp_stream_frames:
  assumes "conn_run (\<lambda>c. logged (recv c)) (d, tcp_decode_new m (r, []), []) (evs @ [Poll c]) =
    ((d', dec, buf), rs @ [Ok None])"
  shows "snd (receive_state dec) = filter (\<lambda>f. length f \<le> unat m) (complete_frames (arrived evs)) \<and>
    buf = (if unat m < length (open_frame (arrived evs)) then [] else open_frame (arrived evs))"
  using conn_run_dry [OF assms] by (auto simp: all_frames_complete split: if_splits)

theorem tcp_stream_frames_witness:
  "\<exists>d' dec buf.
     conn_run (\<lambda>c :: unit. logged (\<lambda>d s b. (d, s, Ok None)))
       (initial_diag 0, tcp_decode_new 2 ((), []), [])
       ([Arrive [1, 2], Poll (), Arrive [0, 7, 7], Poll (), Arrive [7, 0, 8, 0, 9], Poll ()] @ [Poll ()]) =
     ((d', dec, buf), [Ok None, Ok (Some Incomplete), Ok (Some Incomplete)] @ [Ok None]) \<and>
     snd (receive_state dec) = [[1, 2], [8]] \<and> buf = [9]"
proof -
  let ?evs = "[Arrive [1, 2], Poll (), Arrive [0, 7, 7], Poll (), Arrive [7, 0, 8, 0, 9], Poll ()]"
  obtain d' dec buf where run:
    "conn_run (\<lambda>c :: unit. logged (\<lambda>d s b. (d, s, Ok None)))
       (initial_diag 0, tcp_decode_new 2 ((), []), []) (?evs @ [Poll ()]) =
     ((d', dec, buf), [Ok None, Ok (Some Incomplete), Ok (Some Incomplete)] @ [Ok None])"
    by (simp add: tcp_decode_new_def tcp_decode_reference_lemma head_ok_def next_frame.simps
        deliver_def logged_def)
  from tcp_stream_frames [OF run] run show ?thesis
    by (auto simp: complete_frames.simps open_frame.simps)
qed

end
