(* ===== verification/Tcp_Server.thy ===== *)
theory Tcp_Server
  imports Tcp_Frames
begin

text \<open>
  The connections of \<open>server/tcp.rs\<close>: accepting them, the timeout around each, quiet
  closing, and the pool \<open>Listen\<close> that polls them. What the runtime answers when the
  listener, a connection or the pool is polled is an argument: a list of answers in the
  order in which they are asked for. A list that has run out answers that nothing is ready.
\<close>

datatype 'a poll = Ready 'a | Pending

section \<open>Accepting\<close>

text \<open>\<open>TcpIncoming::poll_next\<close>: the stream of connections never ends.\<close>

fun tcp_incoming_poll :: "('k \<times> 'addr) result poll \<Rightarrow> 'k result option poll" where
  "tcp_incoming_poll (Ready (Ok (conn, _))) = Ready (Some (Ok conn))"
| "tcp_incoming_poll (Ready (Err err)) = Ready (Some (Err err))"
| "tcp_incoming_poll (Ready (Panic p)) = Ready (Some (Panic p))"
| "tcp_incoming_poll Pending = Pending"

text \<open>\<open>TimeoutStream::new\<close> and its \<open>Drop\<close>: every connection is counted when it opens and closes.\<close>

record 's timeout_stream =
  keep_alive :: duration
  ts_stream :: 's

definition timeout_new :: "'s \<Rightarrow> duration \<Rightarrow> diag \<Rightarrow> diag \<times> 's timeout_stream" where
  "timeout_new stream ka d =
     (increment (Server M_tcp_conn_accept) d, \<lparr>keep_alive = ka, ts_stream = stream\<rparr>)"

definition timeout_drop :: "diag \<Rightarrow> diag" where
  "timeout_drop d = increment (Server M_tcp_conn_close) d"

text \<open>
  \<open>TimeoutStream::poll_next\<close>: the timer elapsed, the stream gave an item (and its next
  state), or nothing happened. An item starts a new timer.
\<close>

datatype ('i, 's) timed = Elapsed | Produced "'i option" 's | Not_ready

fun timeout_poll ::
  "'s timeout_stream \<Rightarrow> ('i, 's) timed \<Rightarrow> diag \<Rightarrow> diag \<times> 's timeout_stream \<times> 'i option poll" where
  "timeout_poll t Elapsed d = (increment (Server M_tcp_conn_timeout) d, t, Ready None)"
| "timeout_poll t (Produced item stream) d = (d, t\<lparr>ts_stream := stream\<rparr>, Ready item)"
| "timeout_poll t Not_ready d = (d, t, Pending)"

text \<open>
  \<open>FramedRead\<close> holds the connection, its decoder, the bytes that were read and not decoded
  yet, and whether the peer has closed.

  \<open>accept_protocol\<close>, \<open>accept\<close> and \<open>accept_tls\<close>: a connection gets a decoder of its own,
  with a clone of \<open>receive\<close>; one that cannot be established is ignored. The answers of the
  listener and of the handshake are results of the operating system and of the TLS library:
  a connection or an error.
\<close>

record ('k, 'r) framed =
  fr_conn :: 'k
  fr_decoder :: "'r tcp_decoder"
  fr_buf :: bytes
  fr_eof :: bool

definition framed_new :: "'k \<Rightarrow> 'r tcp_decoder \<Rightarrow> ('k, 'r) framed" where
  "framed_new conn dec = \<lparr>fr_conn = conn, fr_decoder = dec, fr_buf = [], fr_eof = False\<rparr>"

definition accept_protocol ::
  "'k \<Rightarrow> duration \<Rightarrow> usize \<Rightarrow> 'r \<Rightarrow> diag \<Rightarrow> diag \<times> ('k, 'r) framed timeout_stream option" where
  "accept_protocol conn ka max_size receive d =
     (case timeout_new (framed_new conn (tcp_decode_new max_size receive)) ka d of
        (d, t) \<Rightarrow> (d, Some t))"

definition accept ::
  "'k result \<Rightarrow> duration \<Rightarrow> usize \<Rightarrow> 'r \<Rightarrow> diag \<Rightarrow> diag \<times> ('k, 'r) framed timeout_stream option" where
  "accept conn ka max_size receive d =
     (case conn of
        Ok conn \<Rightarrow> accept_protocol conn ka max_size receive d
      | _ \<Rightarrow> (d, None))"

definition accept_tls ::
  "('k \<Rightarrow> 'q result) \<Rightarrow> 'k result \<Rightarrow> duration \<Rightarrow> usize \<Rightarrow> 'r \<Rightarrow> diag \<Rightarrow>
   diag \<times> ('q, 'r) framed timeout_stream option" where
  "accept_tls tls_accept conn ka max_size receive d =
     (case conn of
        Ok conn \<Rightarrow>
          (case tls_accept conn of
             Ok conn \<Rightarrow> accept_protocol conn ka max_size receive d
           | _ \<Rightarrow> (d, None))
      | _ \<Rightarrow> (d, None))"

text \<open>\<open>QuietClose::poll_read\<close>: a connection that breaks off reads as one that ends.\<close>

definition quiet_close :: "unit result poll \<Rightarrow> unit result poll" where
  "quiet_close p =
     (case p of
        Ready (Err (Io UnexpectedEof _)) \<Rightarrow> Ready (Ok ())
      | Ready (Err (Io ConnectionReset _)) \<Rightarrow> Ready (Ok ())
      | p \<Rightarrow> p)"

text \<open>
  A client that breaks off is not an error: a read that fails because the connection was
  closed or reset reads as the regular end of the stream, and every other answer is passed on.
\<close>

lemma quiet_close_answers:
  "quiet_close p =
     (if \<exists>k s. p = Ready (Err (Io k s)) \<and> (k = UnexpectedEof \<or> k = ConnectionReset)
      then Ready (Ok ()) else p)"
  by (auto simp: quiet_close_def split: poll.splits outcome.splits error.splits io_kind.splits)

section \<open>The pool\<close>

text \<open>
  The connections that pass \<open>accept\<close>: \<open>filter_map\<close> asks the listener until one does, or
  nothing is ready.
\<close>

type_synonym ('k, 's) accept_fn = "'k result \<Rightarrow> diag \<Rightarrow> diag \<times> 's option"

fun accept_poll ::
  "('k, 's) accept_fn \<Rightarrow> 'k result option poll list \<Rightarrow> diag \<Rightarrow>
   'k result option poll list \<times> diag \<times> 's option poll" where
  "accept_poll acc [] d = ([], d, Pending)"
| "accept_poll acc (Pending # as) d = (as, d, Pending)"
| "accept_poll acc (Ready None # as) d = (as, d, Ready None)"
| "accept_poll acc (Ready (Some conn) # as) d =
     (case acc conn d of
        (d, Some s) \<Rightarrow> (as, d, Ready (Some s))
      | (d, None) \<Rightarrow> accept_poll acc as d)"

lemma accept_poll_length:
  "accept_poll acc as d = (as', d', Ready (Some s)) \<Longrightarrow> length as' < length as"
  by (induction acc as d arbitrary: as' d' s rule: accept_poll.induct)
    (auto split: prod.splits option.splits intro: less_SucI)

record 's listen =
  connections :: "'s list"
  accept_done :: bool
  max_connections :: nat

definition listen_new :: "nat \<Rightarrow> 's listen" where
  "listen_new m = \<lparr>connections = [], accept_done = False, max_connections = m\<rparr>"

text \<open>
  The inner loop \<open>'fill_conns\<close>. The stream of accepted connections is fused: after its end
  it is not polled again.
\<close>

function fill_conns ::
  "('k, 's) accept_fn \<Rightarrow> 'k result option poll list \<Rightarrow> 's listen \<Rightarrow> diag \<Rightarrow>
   'k result option poll list \<times> 's listen \<times> diag" where
  "fill_conns acc as l d =
     (if length (connections l) < max_connections l \<and> \<not> accept_done l
      then (case accept_poll acc as d of
              (as', d', Ready (Some s)) \<Rightarrow>
                fill_conns acc as' (l\<lparr>connections := connections l @ [s]\<rparr>) d'
            | (as', d', Ready None) \<Rightarrow> (as', l\<lparr>accept_done := True\<rparr>, d')
            | (as', d', Pending) \<Rightarrow> (as', l, d'))
      else (as, l, d))"
  by pat_completeness auto
termination
  by (relation "measure (\<lambda>(acc, as, l, d). length as)")
    (auto dest: accept_poll_length [OF sym])

declare fill_conns.simps [simp del]

lemma fill_conns_Nil: "fill_conns acc [] l d = ([], l, d)"
  by (simp add: fill_conns.simps)

lemma fill_conns_accept:
  "length (connections l) < max_connections l \<Longrightarrow> \<not> accept_done l \<Longrightarrow> acc conn d = (d', Some s) \<Longrightarrow>
   fill_conns acc (Ready (Some conn) # as) l d = fill_conns acc as (l\<lparr>connections := connections l @ [s]\<rparr>) d'"
  by (simp add: fill_conns.simps [of acc "Ready (Some conn) # as"])

text \<open>What accepting a connection and the two ways to stop keep, the loop keeps.\<close>

lemma fill_conns_invariant:
  assumes "P as l d"
    and accepted: "\<And>as l d as' d' s. P as l d \<Longrightarrow> length (connections l) < max_connections l \<Longrightarrow>
      accept_poll acc as d = (as', d', Ready (Some s)) \<Longrightarrow> P as' (l\<lparr>connections := connections l @ [s]\<rparr>) d'"
    and ended: "\<And>as l d as' d'. P as l d \<Longrightarrow> accept_poll acc as d = (as', d', Ready None) \<Longrightarrow>
      P as' (l\<lparr>accept_done := True\<rparr>) d'"
    and waits: "\<And>as l d as' d'. P as l d \<Longrightarrow> accept_poll acc as d = (as', d', Pending) \<Longrightarrow> P as' l d'"
    and "fill_conns acc as l d = (as', l', d')"
  shows "P as' l' d'"
  using assms(1,5)
proof (induction "length as" arbitrary: as l d rule: less_induct)
  case less
  note step = fill_conns.simps [of acc as l d]
  obtain as1 d1 r where poll: "accept_poll acc as d = (as1, d1, r)" by (metis prod_cases3)
  consider s where "r = Ready (Some s)" | "r = Ready None" | "r = Pending"
    by (metis option.exhaust poll.exhaust)
  then show ?case
  proof cases
    case (1 s)
    then have "length as1 < length as" using accept_poll_length poll by fastforce
    with 1 less poll step accepted show ?thesis by (fastforce split: if_splits)
  next
    case 2
    with less.prems poll step ended show ?thesis by (auto split: if_splits)
  next
    case 3
    with less.prems poll step waits show ?thesis by (auto split: if_splits)
  qed
qed

text \<open>
  What polling \<open>FuturesUnordered\<close> gives: an item of a connection, with its next state, or
  that a connection ended, or that nothing is ready; in each case with the other
  connections, which may have made progress. Which connections are polled, and what they
  read, is up to the runtime: an answer \<open>'e\<close> of it.
\<close>

datatype ('s, 'i) pool_poll = Conn_item "'i result" 's "'s list" | Conn_closed "'s list" | Pool_idle "'s list"

type_synonym ('e, 's, 'i) pool_fn = "'e \<Rightarrow> 's list \<Rightarrow> diag \<Rightarrow> diag \<times> ('s, 'i) pool_poll"

definition idle_result :: "'s listen \<Rightarrow> 'i result option poll" where
  "idle_result l = (if accept_done l then Ready None else Pending)"

text \<open>
  \<open>Listen::poll_next\<close>: one turn of \<open>'poll_conns\<close> per answer of the pool. A connection that
  fails or ends is dropped. The answers of the listener that were not asked for are returned.
\<close>

fun listen_poll ::
  "('k, 's) accept_fn \<Rightarrow> ('e, 's, 'i) pool_fn \<Rightarrow> 'k result option poll list \<Rightarrow> 'e list \<Rightarrow> 's listen \<Rightarrow> diag \<Rightarrow>
   'k result option poll list \<times> 's listen \<times> diag \<times> 'i result option poll" where
  "listen_poll acc pool as [] l d =
     (case fill_conns acc as l d of (as, l, d) \<Rightarrow> (as, l, d, idle_result l))"
| "listen_poll acc pool as (e # es) l d =
     (case fill_conns acc as l d of (as, l, d) \<Rightarrow>
        (case pool e (connections l) d of
           (d, Conn_item (Ok item) conn rest) \<Rightarrow>
             (as, l\<lparr>connections := rest @ [conn]\<rparr>, d, Ready (Some (Ok item)))
         | (d, Conn_item (Err err) conn rest) \<Rightarrow>
             listen_poll acc pool as es (l\<lparr>connections := rest\<rparr>)
               (timeout_drop (emit_debug_err err ''GELF TCP client failed''
                 (increment (Server M_receive_err) d)))
         | (d, Conn_item (Panic p) conn rest) \<Rightarrow>
             (as, l\<lparr>connections := rest @ [conn]\<rparr>, d, Ready (Some (Panic p)))
         | (d, Conn_closed rest) \<Rightarrow>
             listen_poll acc pool as es (l\<lparr>connections := rest\<rparr>) (timeout_drop d)
         | (d, Pool_idle rest) \<Rightarrow> (as, l\<lparr>connections := rest\<rparr>, d, idle_result l)))"

text \<open>
  \<open>Server::build\<close>: an event, and the stream of what the connections send: how they are
  accepted, and a pool of at most 1024 of them. The handshake is done by the TLS library.
\<close>

record 't tcp_stream =
  st_keep_alive :: duration
  st_max_size_bytes :: usize
  st_tls :: "'t option"
  st_max_connections :: nat

definition tcp_build :: "duration \<Rightarrow> usize \<Rightarrow> 't option \<Rightarrow> diag \<Rightarrow> diag \<times> 't tcp_stream" where
  "tcp_build ka max_size tls d =
     (emit ''Setting up for TCP'' d,
      \<lparr>st_keep_alive = ka, st_max_size_bytes = max_size, st_tls = tls, st_max_connections = 1024\<rparr>)"

definition tcp_accept ::
  "('t \<Rightarrow> 'k \<Rightarrow> 'k result) \<Rightarrow> 't tcp_stream \<Rightarrow> 'r \<Rightarrow> ('k, ('k, 'r) framed timeout_stream) accept_fn" where
  "tcp_accept tls_accept st receive conn =
     (case st_tls st of
        Some tls \<Rightarrow> accept_tls (tls_accept tls) conn (st_keep_alive st) (st_max_size_bytes st) receive
      | None \<Rightarrow> accept conn (st_keep_alive st) (st_max_size_bytes st) receive)"

definition tcp_listen :: "'t tcp_stream \<Rightarrow> 's listen" where
  "tcp_listen st = listen_new (st_max_connections st)"

section \<open>The interface of accepting\<close>

text \<open>
  Accepting a connection counts it, and does nothing else to the counters of open and closed
  connections; refusing one changes nothing.
\<close>

locale acceptor =
  fixes acc :: "('k, 's) accept_fn"
  assumes acc_Some: "acc conn d = (d', Some s) \<Longrightarrow> d' = increment (Server M_tcp_conn_accept) d"
    and acc_None: "acc conn d = (d', None) \<Longrightarrow> d' = d"

text \<open>
  The connections that the counters say are open. The pool is within its bound, and at the
  debug level, where the counters run, they agree with it.
\<close>

definition counted_open :: "diag \<Rightarrow> usize" where
  "counted_open d = accounted (Server M_tcp_conn_accept) d - accounted (Server M_tcp_conn_close) d"

definition pool_ok :: "'s listen \<Rightarrow> diag \<Rightarrow> bool" where
  "pool_ok l d \<longleftrightarrow>
     length (connections l) \<le> max_connections l \<and>
     (level_cell d = 0 \<longrightarrow> counted_open d = of_nat (length (connections l)))"

definition endless :: "'k result option poll list \<Rightarrow> bool" where
  "endless as \<longleftrightarrow> Ready None \<notin> set as"

lemma counted_open_accept:
  "level_cell d = 0 \<Longrightarrow> counted_open (increment (Server M_tcp_conn_accept) d) = counted_open d + 1"
  by (simp add: counted_open_def)

lemma counted_open_drop:
  "level_cell d = 0 \<Longrightarrow> counted_open (timeout_drop d) = counted_open d - 1"
  by (simp add: counted_open_def timeout_drop_def)

lemma level_cell_drop [simp]: "level_cell (timeout_drop d) = level_cell d"
  by (simp add: timeout_drop_def)

lemma counted_open_other:
  "counted_open (emit_debug_err e t (increment (Server M_receive_err) d)) = counted_open d"
  by (simp add: counted_open_def accounted_increment_other)

context acceptor
begin

lemma accept_poll_frame:
  "accept_poll acc as d = (as', d', r) \<Longrightarrow>
   d' = (case r of Ready (Some _) \<Rightarrow> increment (Server M_tcp_conn_accept) d | _ \<Rightarrow> d) \<and>
   set as' \<subseteq> set as \<and> (endless as \<longrightarrow> r \<noteq> Ready None)"
proof (induction as arbitrary: d)
  case Nil
  then show ?case by auto
next
  case (Cons a as)
  show ?case
  proof (cases "\<exists>conn. a = Ready (Some conn)")
    case True
    then obtain conn where a: "a = Ready (Some conn)" by blast
    obtain d1 s where acc: "acc conn d = (d1, s)" by fastforce
    show ?thesis
    proof (cases s)
      case None
      with Cons.IH [of d] Cons.prems acc acc_None [of conn d d1] show ?thesis
        by (auto simp: a endless_def)
    next
      case (Some t)
      with Cons.prems acc acc_Some [of conn d d1 t] show ?thesis by (auto simp: a)
    qed
  next
    case False
    then have "a = Pending \<or> a = Ready None"
      by (metis option.exhaust poll.exhaust)
    with Cons.prems show ?thesis by (auto simp: endless_def)
  qed
qed

text \<open>The answers that are left are some of those there were, and without an end there is none.\<close>

lemma fill_conns_frame:
  assumes "fill_conns acc as l d = (as', l', d')"
  shows "max_connections l' = max_connections l \<and> set as' \<subseteq> set as \<and>
    (endless as \<longrightarrow> accept_done l' = accept_done l)"
  by (rule fill_conns_invariant [where P = "\<lambda>as' l' d'.
        max_connections l' = max_connections l \<and> set as' \<subseteq> set as \<and>
        (endless as \<longrightarrow> accept_done l' = accept_done l)", OF _ _ _ _ assms])
    (auto simp: endless_def dest!: accept_poll_frame)

lemma fill_conns_ok:
  assumes "pool_ok l d" and "fill_conns acc as l d = (as', l', d')"
  shows "pool_ok l' d' \<and> level_cell d' = level_cell d"
  by (rule fill_conns_invariant [where P = "\<lambda>as l d'. pool_ok l d' \<and> level_cell d' = level_cell d",
        OF _ _ _ _ assms(2)])
    (use assms(1) in \<open>auto simp: pool_ok_def counted_open_accept dest!: accept_poll_frame\<close>)

lemma listen_poll_frame:
  "listen_poll acc pool as es l d = (as', l', d', r) \<Longrightarrow>
   max_connections l' = max_connections l \<and> set as' \<subseteq> set as \<and> (\<forall>e. r \<noteq> Ready (Some (Err e))) \<and>
   (endless as \<and> \<not> accept_done l \<longrightarrow> \<not> accept_done l' \<and> r \<noteq> Ready None)"
proof (induction es arbitrary: as l d)
  case Nil
  obtain as1 l1 d1 where fill: "fill_conns acc as l d = (as1, l1, d1)" by (metis prod_cases3)
  from fill_conns_frame [OF fill] Nil fill show ?case by (auto simp: idle_result_def split: if_splits)
next
  case (Cons e es)
  obtain as1 l1 d1 where fill: "fill_conns acc as l d = (as1, l1, d1)" by (metis prod_cases3)
  obtain d2 ans where ans: "pool e (connections l1) d1 = (d2, ans)" by (metis surj_pair)
  have go_on: ?case
    if "listen_poll acc pool as1 es (l1\<lparr>connections := rest\<rparr>) d3 = (as', l', d', r)" for rest d3
    using Cons.IH [OF that] fill_conns_frame [OF fill] by (auto simp: endless_def)
  show ?case
  proof (cases ans)
    case (Conn_item x conn rest)
    with Cons.prems fill ans fill_conns_frame [OF fill] go_on show ?thesis by (cases x) auto
  next
    case (Pool_idle rest)
    with Cons.prems fill ans fill_conns_frame [OF fill] show ?thesis
      by (auto simp: idle_result_def split: if_splits)
  qed (use Cons.prems fill ans go_on in auto)
qed

end

section \<open>The interface of the pool\<close>

text \<open>
  What \<open>Listen\<close> relies on of the pool: at most one connection leaves it, and polling the
  others opens and closes none.
\<close>

locale conn_set =
  fixes pool :: "('e, 's, 'i) pool_fn"
  assumes pool_item: "pool e cs d = (d', Conn_item x conn rest) \<Longrightarrow> length cs = Suc (length rest)"
    and pool_closed: "pool e cs d = (d', Conn_closed rest) \<Longrightarrow> length cs = Suc (length rest)"
    and pool_idle: "pool e cs d = (d', Pool_idle rest) \<Longrightarrow> length rest = length cs"
    and pool_frame: "pool e cs d = (d', r) \<Longrightarrow>
      level_cell d' = level_cell d \<and> counted_open d' = counted_open d"

locale listener = acceptor acc + conn_set pool
  for acc :: "('k, 's) accept_fn" and pool :: "('e, 's, 'i) pool_fn"
begin

text \<open>A connection leaves the pool: the bound and the count are kept.\<close>

lemma pool_ok_dropped:
  assumes "pool_ok l d" and "length (connections l) = Suc (length rest)"
    and "level_cell d' = level_cell d" and "counted_open d' = counted_open d"
  shows "pool_ok (l\<lparr>connections := rest\<rparr>) (timeout_drop d')"
  using assms by (auto simp: pool_ok_def counted_open_drop)

text \<open>
  A poll keeps the bound, the count and the level.
\<close>

lemma listen_poll_ok:
  assumes "pool_ok l d" and "listen_poll acc pool as es l d = (as', l', d', r)"
  shows "pool_ok l' d' \<and> level_cell d' = level_cell d"
  using assms
proof (induction es arbitrary: as l d)
  case Nil
  obtain as1 l1 d1 where fill: "fill_conns acc as l d = (as1, l1, d1)" by (metis prod_cases3)
  from fill_conns_ok [OF Nil.prems(1) fill] Nil.prems(2) fill show ?case by auto
next
  case (Cons e es)
  obtain as1 l1 d1 where fill: "fill_conns acc as l d = (as1, l1, d1)" by (metis prod_cases3)
  obtain d2 ans where ans: "pool e (connections l1) d1 = (d2, ans)" by (metis surj_pair)
  note ok = fill_conns_ok [OF Cons.prems(1) fill] and frame = pool_frame [OF ans]
  have go_on: ?case
    if "listen_poll acc pool as1 es (l1\<lparr>connections := rest\<rparr>) (timeout_drop d3) = (as', l', d', r)"
      "length (connections l1) = Suc (length rest)" "level_cell d3 = level_cell d2"
      "counted_open d3 = counted_open d2" for d3 rest
    using Cons.IH [OF pool_ok_dropped [of l1 d1 rest d3] that(1)] that ok frame by auto
  show ?case
  proof (cases ans)
    case (Conn_item x conn rest)
    then have rest: "length (connections l1) = Suc (length rest)"
      using ans pool_item by blast
    show ?thesis
    proof (cases x)
      case (Err err)
      then show ?thesis
        using Cons.prems(2) fill ans Conn_item rest counted_open_other
        by (intro go_on [of rest "emit_debug_err err ''GELF TCP client failed''
            (increment (Server M_receive_err) d2)"]) auto
    qed (use Cons.prems(2) fill ans Conn_item ok frame rest in \<open>auto simp: pool_ok_def\<close>)
  next
    case (Conn_closed rest)
    then show ?thesis
      using Cons.prems(2) fill ans pool_closed [of e "connections l1" d1 d2 rest]
      by (intro go_on [of rest d2]) auto
  next
    case (Pool_idle rest)
    with Cons.prems(2) fill ans ok frame pool_idle [of e "connections l1" d1 d2 rest] show ?thesis
      by (auto simp: pool_ok_def)
  qed
qed

end

text \<open>Both ways of accepting meet the contract, and so does their choice.\<close>

interpretation plain_acceptor: acceptor "\<lambda>conn. accept conn ka m receive"
  by unfold_locales
    (auto simp: accept_def accept_protocol_def timeout_new_def split: outcome.splits)

interpretation tls_acceptor: acceptor "\<lambda>conn. accept_tls tls conn ka m receive"
  by unfold_locales
    (auto simp: accept_tls_def accept_protocol_def timeout_new_def split: outcome.splits)

interpretation stream_acceptor: acceptor "tcp_accept tls_accept st receive"
  by unfold_locales
    (auto simp: tcp_accept_def dest: plain_acceptor.acc_Some plain_acceptor.acc_None
      tls_acceptor.acc_Some tls_acceptor.acc_None split: option.splits)

lemma endless_tcp_incoming: "endless (map tcp_incoming_poll as)"
proof -
  have "tcp_incoming_poll a \<noteq> Ready None" for a :: "('a \<times> 'b) result poll"
    by (cases a rule: tcp_incoming_poll.cases) auto
  then show ?thesis unfolding endless_def set_map by (metis imageE)
qed

lemma pool_ok_new:
  "accounted (Server M_tcp_conn_accept) d = accounted (Server M_tcp_conn_close) d \<Longrightarrow>
   pool_ok (listen_new m) d"
  by (simp add: pool_ok_def listen_new_def counted_open_def)

section \<open>The end of a stream\<close>

text \<open>
  When the peer has closed and no delimiter is left in the
  buffer, a rest that is within the limit is one last message, a rest that is too long or
  part of a message being skipped is dropped, and an empty rest is nothing; in every case
  the buffer is empty afterwards.
\<close>

lemma tcp_eof:
  assumes "head_ok dec src" and "0 \<notin> set src"
  shows "tcp_decode_eof recv d dec src =
    (if discarding dec then (d, dec\<lparr>read_head := 0\<rparr>, [], Ok None)
     else if unat (max_size_bytes dec) < length src
     then (increment (Server M_tcp_msg_overflow) d, dec\<lparr>read_head := 0, discarding := True\<rparr>, [], Ok None)
     else if src = [] then (d, dec\<lparr>read_head := 0\<rparr>, [], Ok None)
     else (case recv d (receive_state dec) src of
             (d', r, x) \<Rightarrow> (d', dec\<lparr>read_head := 0, receive_state := r\<rparr>, [], into_received x)))"
proof -
  have keep: "dec\<lparr>read_head := h, discarding := False\<rparr> = dec\<lparr>read_head := h\<rparr>" if "\<not> discarding dec" for h
    using that by (cases dec) simp
  have keep': "dec\<lparr>read_head := h, discarding := True\<rparr> = dec\<lparr>read_head := h\<rparr>" if "discarding dec" for h
    using that by (cases dec) simp
  show ?thesis
    using assms(2) keep keep'
    by (auto simp: tcp_decode_eof_def tcp_decode_reference_lemma [OF assms(1)] next_frame.simps
        deliver_def Let_def split: prod.splits)
qed

end
