(* ===== verification/Udp.thy ===== *)
theory Udp
  imports Received
begin

text \<open>
  \<open>server/udp.rs\<close>: every datagram is one message or chunk. Binding the socket and the
  framing of \<open>tokio_util\<close> around the decoder are outside the model; its documented part is
  that each datagram is given to the decoder and a decoder that returns nothing is skipped.
\<close>

text \<open>\<open>Decoder::decode\<close>: the whole buffer is taken; the results are as for TCP.\<close>

definition udp_decode ::
  "'r receive_fn \<Rightarrow> diag \<Rightarrow> 'r \<Rightarrow> bytes \<Rightarrow> diag \<times> 'r \<times> bytes \<times> received option result" where
  "udp_decode recv d r src =
     (if src = [] then (d, r, [], Ok None)
      else (case recv d r src of (d', r', x) \<Rightarrow> (d', r', [], into_received x)))"

text \<open>\<open>Server::build\<close>: an event, and the address is dropped from every item.\<close>

definition udp_build :: "diag \<Rightarrow> diag" where
  "udp_build d = emit ''Setting up for UDP'' d"

definition udp_item :: "(received \<times> 'a) result \<Rightarrow> received result" where
  "udp_item r = outcome_bind r (\<lambda>(msg, _). Ok msg)"

text \<open>The items a sequence of datagrams gives, each with the reading of the clock it sees.\<close>

fun udp_stream ::
  "('c \<Rightarrow> 'r receive_fn) \<Rightarrow> diag \<Rightarrow> 'r \<Rightarrow> ('c \<times> bytes) list \<Rightarrow> diag \<times> 'r \<times> received result list" where
  "udp_stream recv d r [] = (d, r, [])"
| "udp_stream recv d r ((c, src) # ins) =
     (case udp_decode (recv c) d r src of
        (d', r', _, x) \<Rightarrow>
          (case udp_stream recv d' r' ins of (d'', r'', xs) \<Rightarrow>
             (d'', r'', (case x of
                Ok (Some m) \<Rightarrow> udp_item (Ok (m, ())) # xs
              | Ok None \<Rightarrow> xs
              | Err e \<Rightarrow> udp_item (Err e :: (received \<times> unit) result) # xs
              | Panic p \<Rightarrow> udp_item (Panic p :: (received \<times> unit) result) # xs))))"

section \<open>One item per datagram\<close>

definition received_of :: "message option result \<Rightarrow> received result" where
  "received_of x = (case x of
      Ok (Some m) \<Rightarrow> Ok (Complete m) | Ok None \<Rightarrow> Ok Incomplete
    | Err e \<Rightarrow> Ok (Received_error e) | Panic p \<Rightarrow> Panic p)"

lemma udp_decode_received:
  "src \<noteq> [] \<Longrightarrow> recv d r src = (d', r', x) \<Longrightarrow>
   udp_decode recv d r src = (d', r', [], into_received x)"
  by (simp add: udp_decode_def)

text \<open>On the decoder of the program the stream is the run of the decoder, item by item.\<close>

lemma udp_stream_decode_run:
  "\<forall>(clk, src) \<in> set ins. src \<noteq> [] \<Longrightarrow> decode_run dbg d g ins = (d', g', rs) \<Longrightarrow>
   udp_stream (decode dbg) d g ins = (d', g', map received_of rs)"
proof (induction ins arbitrary: d g d' g' rs)
  case Nil
  then show ?case by simp
next
  case (Cons i ins)
  obtain clk src where i: "i = (clk, src)" by fastforce
  obtain d1 g1 r where step: "decode dbg clk d g src = (d1, g1, r)" by (metis prod_cases3)
  obtain d2 g2 rs' where rest: "decode_run dbg d1 g1 ins = (d2, g2, rs')" by (metis prod_cases3)
  from Cons.IH [OF _ rest] Cons.prems step rest show ?case
    by (cases r rule: into_received.cases)
      (auto simp: i udp_decode_def udp_item_def received_of_def)
qed

end
