(* ===== verification/Tcp_Conn.thy ===== *)
theory Tcp_Conn
  imports Tcp_Server Udp
begin

text \<open>
  One TCP connection as the pool polls it: \<open>FramedRead\<close> around the connection and the frame
  decoder, and the timeout around that. What the peer sends is a script of the reads to come;
  when to read and when to decode is up to \<open>FramedRead\<close>, so every order of the two is allowed.
  Two things of it are fixed: after the end of the stream it decodes the rest, and the stream
  ends when there is none.
\<close>

section \<open>Sockets\<close>

text \<open>The reads to come: bytes, none of them at the end of the stream, or an error.\<close>

record socket =
  sock_id :: nat
  sock_reads :: "(error + bytes) list"

text \<open>A read through \<open>QuietClose\<close>, which is around the connections that use TLS.\<close>

definition read_answer :: "bool \<Rightarrow> error + bytes \<Rightarrow> error + bytes" where
  "read_answer quiet r =
     (case r of
        Inr bs \<Rightarrow> Inr bs
      | Inl e \<Rightarrow> if quiet \<and> quiet_close (Ready (Err e)) = Ready (Ok ()) then Inr [] else Inl e)"

section \<open>Polling a connection\<close>

definition framed_decode ::
  "'r receive_fn \<Rightarrow> diag \<Rightarrow> ('k, 'r) framed \<Rightarrow> diag \<times> ('k, 'r) framed \<times> received option result" where
  "framed_decode recv d f =
     (case (if fr_eof f then tcp_decode_eof else tcp_decode) recv d (fr_decoder f) (fr_buf f) of
        (d, dec, buf, r) \<Rightarrow> (d, f\<lparr>fr_decoder := dec, fr_buf := buf\<rparr>, r))"

text \<open>What \<open>FramedRead\<close> does during a poll: it reads, or it decodes, with a clock.\<close>

datatype 'c action = Read | Decode 'c

fun framed_poll ::
  "bool \<Rightarrow> ('c \<Rightarrow> 'r receive_fn) \<Rightarrow> 'c action list \<Rightarrow> (socket, 'r) framed \<Rightarrow> diag \<Rightarrow>
   diag \<times> (socket, 'r) framed \<times> received result option poll" where
  "framed_poll quiet recv [] f d = (d, f, Pending)"
| "framed_poll quiet recv (Read # as) f d =
     (if fr_eof f then framed_poll quiet recv as f d
      else (case sock_reads (fr_conn f) of
              [] \<Rightarrow> framed_poll quiet recv as f d
            | r # rs \<Rightarrow>
                (let f = f\<lparr>fr_conn := (fr_conn f)\<lparr>sock_reads := rs\<rparr>\<rparr>
                 in case read_answer quiet r of
                      Inr bs \<Rightarrow>
                        framed_poll quiet recv as
                          (if bs = [] then f\<lparr>fr_eof := True\<rparr> else f\<lparr>fr_buf := fr_buf f @ bs\<rparr>) d
                    | Inl e \<Rightarrow> (d, f, Ready (Some (Err e))))))"
| "framed_poll quiet recv (Decode c # as) f d =
     (case framed_decode (recv c) d f of
        (d, f, Ok (Some x)) \<Rightarrow> (d, f, Ready (Some (Ok x)))
      | (d, f, Ok None) \<Rightarrow> if fr_eof f then (d, f, Ready None) else framed_poll quiet recv as f d
      | (d, f, Err e) \<Rightarrow> (d, f, Ready (Some (Err e)))
      | (d, f, Panic p) \<Rightarrow> (d, f, Ready (Some (Panic p))))"

text \<open>The timeout asks the stream first, and then its timer.\<close>

type_synonym 'r conn = "(socket, 'r) framed timeout_stream"

definition conn_poll ::
  "bool \<Rightarrow> ('c \<Rightarrow> 'r receive_fn) \<Rightarrow> 'c action list \<Rightarrow> bool \<Rightarrow> 'r conn \<Rightarrow> diag \<Rightarrow>
   diag \<times> 'r conn \<times> received result option poll" where
  "conn_poll quiet recv as elapsed t d =
     (case framed_poll quiet recv as (ts_stream t) d of
        (d, f, Ready item) \<Rightarrow> timeout_poll t (Produced item f) d
      | (d, f, Pending) \<Rightarrow>
          timeout_poll (t\<lparr>ts_stream := f\<rparr>) (if elapsed then Elapsed else Not_ready) d)"

text \<open>
  The pool polls connections, one after the other, until one is ready. An index that no
  connection has is passed over.
\<close>

definition remove_nth :: "nat \<Rightarrow> 'a list \<Rightarrow> 'a list" where
  "remove_nth i xs = take i xs @ drop (Suc i) xs"

fun conn_pool ::
  "bool \<Rightarrow> ('c \<Rightarrow> 'r receive_fn) \<Rightarrow> ((nat \<times> 'c action list \<times> bool) list, 'r conn, received) pool_fn" where
  "conn_pool quiet recv [] cs d = (d, Pool_idle cs)"
| "conn_pool quiet recv ((i, as, elapsed) # ps) cs d =
     (if i < length cs
      then (case conn_poll quiet recv as elapsed (cs ! i) d of
              (d, t, Pending) \<Rightarrow> conn_pool quiet recv ps (cs[i := t]) d
            | (d, t, Ready None) \<Rightarrow> (d, Conn_closed (remove_nth i cs))
            | (d, t, Ready (Some x)) \<Rightarrow> (d, Conn_item x t (remove_nth i cs)))
      else conn_pool quiet recv ps cs d)"

section \<open>The frames of a connection\<close>

text \<open>
  The frames of a stream: the pieces before its delimiters, and the rest once the stream is
  closed, as far as they are within the limit.
\<close>

definition stream_frames :: "usize \<Rightarrow> bytes \<Rightarrow> bool \<Rightarrow> bytes list" where
  "stream_frames m bs closed =
     filter (\<lambda>f. length f \<le> unat m)
       (complete_frames bs @ (if closed \<and> open_frame bs \<noteq> [] then [open_frame bs] else []))"

definition pending :: "('k, 'r) framed \<Rightarrow> bytes list" where
  "pending c =
     (case all_frames (unat (max_size_bytes (fr_decoder c))) (discarding (fr_decoder c)) (fr_buf c) of
        (fs, skip, rest) \<Rightarrow> fs @ (if fr_eof c \<and> rest \<noteq> [] then [rest] else []))"

text \<open>
  The frames that were handed over and those that are pending are the frames of the stream.
  While it is open, they come with the state in which the decoder will stop.
\<close>

definition conn_inv :: "usize \<Rightarrow> bytes \<Rightarrow> bytes list \<Rightarrow> ('k, 'r) framed \<Rightarrow> bool" where
  "conn_inv m past hs c \<longleftrightarrow>
     head_ok (fr_decoder c) (fr_buf c) \<and> max_size_bytes (fr_decoder c) = m \<and>
     stream_frames m past (fr_eof c) = hs @ pending c \<and>
     (\<not> fr_eof c \<longrightarrow>
        (case all_frames (unat m) (discarding (fr_decoder c)) (fr_buf c) of
           (fs, st) \<Rightarrow> all_frames (unat m) False past = (hs @ fs, st)))"

lemma stream_frames_all:
  "all_frames (unat m) False bs = (fs, skip, rest) \<Longrightarrow>
   stream_frames m bs closed = fs @ (if closed \<and> rest \<noteq> [] then [rest] else [])"
  by (auto simp: stream_frames_def all_frames_complete)

lemma conn_inv_new: "conn_inv m [] [] (framed_new k (tcp_decode_new m r))"
  by (simp add: conn_inv_def framed_new_def head_ok_def tcp_decode_new_def pending_def
      stream_frames_def all_frames_simps complete_frames.simps [of "[]"])

lemma conn_inv_bytes:
  assumes "conn_inv m past hs c" and "\<not> fr_eof c"
  shows "conn_inv m (past @ bs) hs (c\<lparr>fr_buf := fr_buf c @ bs\<rparr>)"
proof -
  let ?skip = "discarding (fr_decoder c)"
  obtain fs skip rest where a: "all_frames (unat m) ?skip (fr_buf c) = (fs, skip, rest)"
    by (metis prod_cases3)
  obtain fs' skip' rest' where b: "all_frames (unat m) skip (rest @ bs) = (fs', skip', rest')"
    by (metis prod_cases3)
  have past: "all_frames (unat m) False past = (hs @ fs, skip, rest)"
    using assms a by (simp add: conn_inv_def)
  have "all_frames (unat m) ?skip (fr_buf c @ bs) = (fs @ fs', skip', rest')"
    using all_frames_append [of "unat m" ?skip "fr_buf c" bs] a b by simp
  moreover have "all_frames (unat m) False (past @ bs) = (hs @ fs @ fs', skip', rest')"
    using all_frames_append [of "unat m" False past bs] past b by simp
  ultimately show ?thesis
    using assms
    by (simp add: conn_inv_def pending_def stream_frames_all head_ok_append)
qed

lemma conn_inv_end:
  assumes "conn_inv m past hs c"
  shows "conn_inv m past hs (c\<lparr>fr_eof := True\<rparr>)"
proof (cases "fr_eof c")
  case True
  then have "c\<lparr>fr_eof := True\<rparr> = c" by (cases c) simp
  with assms show ?thesis by simp
next
  case False
  obtain fs skip rest where a:
    "all_frames (unat m) (discarding (fr_decoder c)) (fr_buf c) = (fs, skip, rest)"
    by (metis prod_cases3)
  with assms False have "all_frames (unat m) False past = (hs @ fs, skip, rest)"
    by (simp add: conn_inv_def)
  from stream_frames_all [OF this, of True] a assms show ?thesis
    by (simp add: conn_inv_def pending_def)
qed

lemma tcp_decode_eof_frame:
  "tcp_decode recv d dec src = (d', dec', src', r) \<Longrightarrow> r \<noteq> Ok None \<Longrightarrow>
   tcp_decode_eof recv d dec src = (d', dec', src', r)"
  by (auto simp: tcp_decode_eof_def split: outcome.splits option.splits)

text \<open>A poll hands over the first pending frame, or finds that there is none.\<close>

lemma framed_decode_frame:
  assumes inv: "conn_inv m past hs c"
    and next_f: "next_frame (unat m) (discarding (fr_decoder c)) (fr_buf c) = (Some f, n, skip, rest)"
  obtains fs d1 d2 g x c' where "pending c = f # fs" "recv d1 (receive_state (fr_decoder c)) f = (d2, g, x)"
    "framed_decode recv d c = (d2, c', into_received x)" "fr_eof c' = fr_eof c"
    "fr_conn c' = fr_conn c" "receive_state (fr_decoder c') = g" "conn_inv m past (hs @ [f]) c'"
proof -
  let ?dec = "fr_decoder c"
  obtain d1 where d1: "d1 = (increment (Server M_tcp_msg_overflow) ^^ n) d" by simp
  obtain d2 g x where x: "recv d1 (receive_state ?dec) f = (d2, g, x)" by (metis prod_cases3)
  let ?dec' = "?dec\<lparr>read_head := 0, discarding := skip, receive_state := g\<rparr>"
  let ?c = "c\<lparr>fr_decoder := ?dec', fr_buf := rest\<rparr>"
  have m: "max_size_bytes ?dec = m" and ok: "head_ok ?dec (fr_buf c)"
    using inv by (auto simp: conn_inv_def)
  have "tcp_decode recv d ?dec (fr_buf c) = (d2, ?dec', rest, into_received x)"
    using tcp_decode_reference_lemma [OF ok, of recv d] next_f x d1
    by (simp add: m deliver_def Let_def)
  then have poll: "framed_decode recv d c = (d2, ?c, into_received x)"
    by (simp add: framed_decode_def tcp_decode_eof_frame)
  obtain fs st where fs: "all_frames (unat m) skip rest = (fs, st)" by (metis surj_pair)
  have a: "all_frames (unat m) (discarding ?dec) (fr_buf c) = (f # fs, st)"
    using all_frames_next [of "unat m" "discarding ?dec" "fr_buf c"] next_f fs by simp
  then have p: "pending c = f # pending ?c"
    using fs by (simp add: pending_def m split: prod.splits)
  have "conn_inv m past (hs @ [f]) ?c"
    using inv a fs p by (simp add: conn_inv_def head_ok_def)
  with that [OF p x poll] show thesis by simp
qed

lemma framed_decode_rest:
  assumes inv: "conn_inv m past hs c" and rest: "pending c = [f]" "fr_eof c"
    and next_f: "next_frame (unat m) (discarding (fr_decoder c)) (fr_buf c) = (None, n, skip, f)"
  obtains d1 d2 g x c' where "recv d1 (receive_state (fr_decoder c)) f = (d2, g, x)"
    "framed_decode recv d c = (d2, c', into_received x)" "fr_eof c' = fr_eof c"
    "fr_conn c' = fr_conn c" "receive_state (fr_decoder c') = g" "conn_inv m past (hs @ [f]) c'"
proof -
  let ?dec = "fr_decoder c"
  obtain d1 where d1: "d1 = (increment (Server M_tcp_msg_overflow) ^^ n) d" by simp
  obtain d2 g x where x: "recv d1 (receive_state ?dec) f = (d2, g, x)" by (metis prod_cases3)
  let ?dec' = "?dec\<lparr>read_head := 0, discarding := skip, receive_state := g\<rparr>"
  let ?c = "c\<lparr>fr_decoder := ?dec', fr_buf := []\<rparr>"
  have m: "max_size_bytes ?dec = m" and ok: "head_ok ?dec (fr_buf c)"
    using inv by (auto simp: conn_inv_def)
  have f: "f \<noteq> []"
    using all_frames_dry [OF next_f] rest by (auto simp: pending_def m)
  have "tcp_decode recv d ?dec (fr_buf c) =
      (d1, ?dec\<lparr>read_head := length f, discarding := skip\<rparr>, f, Ok None)"
    using tcp_decode_reference_lemma [OF ok, of recv d] next_f d1
    by (simp add: m deliver_def Let_def)
  then have poll: "framed_decode recv d c = (d2, ?c, into_received x)"
    using x f rest(2) by (simp add: framed_decode_def tcp_decode_eof_def)
  have "pending ?c = []"
    by (cases skip) (simp_all add: pending_def all_frames_simps)
  with inv rest have "conn_inv m past (hs @ [f]) ?c"
    by (simp add: conn_inv_def head_ok_def)
  with that [OF x poll] show thesis by simp
qed

lemma framed_decode_dry:
  assumes inv: "conn_inv m past hs c" and dry: "pending c = []"
  obtains d1 c' where "framed_decode recv d c = (d1, c', Ok None)" "fr_eof c' = fr_eof c"
    "fr_conn c' = fr_conn c" "receive_state (fr_decoder c') = receive_state (fr_decoder c)"
    "conn_inv m past hs c'"
proof -
  let ?dec = "fr_decoder c"
  have m: "max_size_bytes ?dec = m" and ok: "head_ok ?dec (fr_buf c)"
    using inv by (auto simp: conn_inv_def)
  obtain fo n skip rest where next_f:
    "next_frame (unat m) (discarding ?dec) (fr_buf c) = (fo, n, skip, rest)"
    by (metis prod_cases4)
  have "fo = None"
    using all_frames_next [of "unat m" "discarding ?dec" "fr_buf c"] next_f dry
    by (auto simp: pending_def m split: option.splits prod.splits)
  note next_f = next_f [unfolded this]
  note a = all_frames_dry [OF next_f]
  let ?d = "(increment (Server M_tcp_msg_overflow) ^^ n) d"
  let ?c = "c\<lparr>fr_decoder := ?dec\<lparr>read_head := length rest, discarding := skip\<rparr>, fr_buf := rest\<rparr>"
  have "tcp_decode recv d ?dec (fr_buf c) =
      (?d, ?dec\<lparr>read_head := length rest, discarding := skip\<rparr>, rest, Ok None)"
    using tcp_decode_reference_lemma [OF ok, of recv d] next_f
    by (simp add: m deliver_def Let_def)
  moreover have "fr_eof c \<Longrightarrow> rest = []"
    using dry a by (auto simp: pending_def m split: if_splits)
  ultimately have poll: "framed_decode recv d c = (?d, ?c, Ok None)"
    by (simp add: framed_decode_def tcp_decode_eof_def)
  have "conn_inv m past hs ?c"
    using inv a next_frame_None [OF next_f] dry
    by (auto simp: conn_inv_def head_ok_def pending_def m)
  with that [OF poll] show thesis by simp
qed

text \<open>The three ways a poll can go, as one.\<close>

lemma framed_decode_cases:
  assumes inv: "conn_inv m past hs c"
  obtains d1 c' where "pending c = []" "framed_decode recv d c = (d1, c', Ok None)"
      "fr_eof c' = fr_eof c" "fr_conn c' = fr_conn c"
      "receive_state (fr_decoder c') = receive_state (fr_decoder c)" "conn_inv m past hs c'"
  | f d1 d2 g x c' where "f \<in> set (pending c)" "recv d1 (receive_state (fr_decoder c)) f = (d2, g, x)"
      "framed_decode recv d c = (d2, c', into_received x)" "fr_eof c' = fr_eof c"
      "fr_conn c' = fr_conn c" "receive_state (fr_decoder c') = g" "conn_inv m past (hs @ [f]) c'"
proof (cases "pending c")
  case Nil
  show thesis by (rule framed_decode_dry [OF inv Nil, of recv d]) (rule that(1) [OF Nil])
next
  case (Cons f fs)
  have m: "max_size_bytes (fr_decoder c) = m"
    using inv by (simp add: conn_inv_def)
  obtain fo n skip rest where next_f:
    "next_frame (unat m) (discarding (fr_decoder c)) (fr_buf c) = (fo, n, skip, rest)"
    by (metis prod_cases4)
  show thesis
  proof (cases fo)
    case None
    then have rest: "pending c = [rest]" "fr_eof c"
      using all_frames_dry [of "unat m" _ _ n skip rest] next_f Cons
      by (auto simp: pending_def m split: if_splits)
    show thesis
      by (rule framed_decode_rest [OF inv rest, of n skip recv d]) (use next_f None that(2) rest in auto)
  next
    case (Some f')
    show thesis
      by (rule framed_decode_frame [OF inv, of f' n skip rest recv d]) (use next_f Some that(2) in auto)
  qed
qed

section \<open>Polling opens and closes no connection\<close>

definition keeps_open :: "diag \<Rightarrow> diag \<Rightarrow> bool" where
  "keeps_open d d' \<longleftrightarrow> level_cell d' = level_cell d \<and> counted_open d' = counted_open d"

lemma keeps_open_refl [simp]: "keeps_open d d"
  by (simp add: keeps_open_def)

lemma keeps_open_trans [trans]: "keeps_open d d1 \<Longrightarrow> keeps_open d1 d2 \<Longrightarrow> keeps_open d d2"
  by (simp add: keeps_open_def)

lemma keeps_open_increment:
  "m \<noteq> Server M_tcp_conn_accept \<Longrightarrow> m \<noteq> Server M_tcp_conn_close \<Longrightarrow> keeps_open d (increment m d)"
  by (simp add: keeps_open_def counted_open_def accounted_increment_other)

lemma keeps_open_gc: "gc now d g = (d', g', r) \<Longrightarrow> keeps_open d d'"
  by (auto simp: gc_def Let_def intro!: keeps_open_increment split: outcome.splits if_splits)

lemma keeps_open_push: "push now d g h c = (d', g', r) \<Longrightarrow> keeps_open d d'"
  by (auto simp: push_def Let_def intro!: keeps_open_increment
      split: outcome.splits if_splits option.splits prod.splits)

lemma keeps_open_chunked: "chunked dbg clk d g b = (d', g', r) \<Longrightarrow> keeps_open d d'"
  unfolding chunked_def
  by (auto split: outcome.splits if_splits prod.splits
      dest!: keeps_open_gc keeps_open_push intro: keeps_open_trans)

lemma keeps_open_decode: "decode dbg clk d g b = (d', g', r) \<Longrightarrow> keeps_open d d'"
  by (auto simp: decode_def Let_def intro: keeps_open_increment keeps_open_trans [OF keeps_open_increment]
      dest!: keeps_open_chunked split: if_splits)

text \<open>What this asks of \<open>receive\<close>, and what polling a connection makes of it.\<close>

locale quiet_receiver =
  fixes recv :: "'c \<Rightarrow> 'r receive_fn"
  assumes recv_keeps: "recv c d r b = (d', r', x) \<Longrightarrow> keeps_open d d'"
begin

lemma keeps_open_tcp_decode:
  "tcp_decode (recv c) d dec src = (d', dec', src', x) \<Longrightarrow> keeps_open d d'"
proof (cases "read_head dec \<le> length src")
  case False
  then show "tcp_decode (recv c) d dec src = (d', dec', src', x) \<Longrightarrow> keeps_open d d'"
    by (simp add: tcp_decode.simps [of "recv c" d dec src] slice_from_def Let_def)
next
  case True
  then show "tcp_decode (recv c) d dec src = (d', dec', src', x) \<Longrightarrow> keeps_open d d'"
  proof (induction "recv c" d dec src rule: tcp_decode.induct)
    case (1 d dec src)
    have slice: "slice_from (read_head dec) src = Ok (drop (read_head dec) src)"
      using "1.prems"(2) by (simp add: slice_from_def)
    note IH = "1.hyps" [OF refl slice refl]
    have first: "keeps_open d (increment (Server M_tcp_msg_overflow) d)"
      by (simp add: keeps_open_increment)
    show ?case
      using "1.prems" IH
      by (simp add: tcp_decode.simps [of "recv c" d dec src] slice Let_def
          split: bool.splits option.splits if_splits prod.splits)
        (auto intro: recv_keeps keeps_open_trans [OF first])
  qed
qed

lemma keeps_open_framed_decode:
  "framed_decode (recv c) d f = (d', f', x) \<Longrightarrow> keeps_open d d'"
  by (auto simp: framed_decode_def tcp_decode_eof_def split: if_splits prod.splits outcome.splits option.splits
      dest!: keeps_open_tcp_decode dest: recv_keeps intro: keeps_open_trans)

lemma keeps_open_framed_poll:
  "framed_poll quiet recv as f d = (d', f', x) \<Longrightarrow> keeps_open d d'"
proof (induction as arbitrary: f d)
  case (Cons a as)
  show ?case
  proof (cases a)
    case Read
    with Cons show ?thesis
      by (simp add: Let_def split: if_splits list.splits sum.splits)
  next
    case (Decode c)
    obtain d1 f1 r where step: "framed_decode (recv c) d f = (d1, f1, r)" by (metis prod_cases3)
    note first = keeps_open_framed_decode [OF step]
    show ?thesis
      using Cons.prems first step keeps_open_trans [OF first Cons.IH] Decode
      by (auto split: outcome.splits option.splits if_splits)
  qed
qed simp

lemma keeps_open_conn_poll:
  assumes "conn_poll quiet recv as elapsed t d = (d', t', x)"
  shows "keeps_open d d'"
proof -
  obtain d1 f r where poll: "framed_poll quiet recv as (ts_stream t) d = (d1, f, r)" by (metis prod_cases3)
  have "keeps_open d1 d'"
    using assms poll by (auto simp: conn_poll_def intro: keeps_open_increment split: poll.splits if_splits)
  with keeps_open_framed_poll [OF poll] show ?thesis by (rule keeps_open_trans)
qed

lemma length_remove_nth: "i < length xs \<Longrightarrow> length xs = Suc (length (remove_nth i xs))"
  by (simp add: remove_nth_def)

lemma conn_pool_frame:
  assumes "conn_pool quiet recv ps cs d = (d', r)"
  shows "keeps_open d d' \<and>
    (case r of Conn_item x conn rest \<Rightarrow> length cs = Suc (length rest)
     | Conn_closed rest \<Rightarrow> length cs = Suc (length rest)
     | Pool_idle rest \<Rightarrow> length rest = length cs)"
  using assms
proof (induction ps arbitrary: cs d)
  case (Cons p ps)
  obtain i as elapsed where p: "p = (i, as, elapsed)" by (metis prod_cases3)
  show ?case
  proof (cases "i < length cs")
    case True
    obtain d1 t x where poll: "conn_poll quiet recv as elapsed (cs ! i) d = (d1, t, x)" by (metis prod_cases3)
    note first = keeps_open_conn_poll [OF poll]
    show ?thesis
    proof (cases x)
      case Pending
      with Cons.IH [of "cs[i := t]" d1] Cons.prems True poll p show ?thesis
        by (auto split: pool_poll.splits intro: keeps_open_trans [OF first])
    qed (use Cons.prems True poll p first length_remove_nth in \<open>auto split: option.splits\<close>)
  next
    case False
    with Cons p show ?thesis by simp
  qed
qed auto

end

interpretation gelf_quiet: quiet_receiver "decode dbg"
  by unfold_locales (rule keeps_open_decode)

interpretation gelf_conns: conn_set "conn_pool quiet (decode dbg)"
  using gelf_quiet.conn_pool_frame by unfold_locales (fastforce simp: keeps_open_def)+

interpretation gelf_listener: listener "tcp_accept tls_accept st receive" "conn_pool quiet (decode dbg)"
  by unfold_locales

end
