(* ===== verification/Server.thy ===== *)
theory Server
  imports Udp Tcp_Server
begin

text \<open>
  \<open>server/mod.rs\<close>: the configuration and its bind address, setting up the stream of
  incoming messages, and the loop that selects between that stream, the handle and the
  termination signal. What the operating system and the TLS library do when the server is
  set up are the fields of the record \<open>net\<close>. The loop is driven by a sequence of events,
  one per turn of \<open>select!\<close>, in the order in which it picks them.
\<close>

section \<open>Configuration\<close>

datatype protocol = Udp | Tcp

record bind =
  bind_addr :: string
  bind_protocol :: protocol

record certificate =
  cert_path :: string
  private_key_path :: string

record server_config =
  server_bind :: bind
  tcp_keep_alive_secs :: u64
  tcp_max_size_bytes :: u64
  server_certificate :: "certificate option"

text \<open>
  \<open>str::get(0..n)\<close>: nothing when the text is too short or the end is inside a character.
\<close>

definition char_boundary :: "string \<Rightarrow> nat \<Rightarrow> bool" where
  "char_boundary s n \<longleftrightarrow>
     n = length s \<or> n < length s \<and> \<not> (0x80 \<le> (of_char (s ! n) :: nat) \<and> (of_char (s ! n) :: nat) < 0xC0)"

definition str_get_prefix :: "nat \<Rightarrow> string \<Rightarrow> string option" where
  "str_get_prefix n s = (if char_boundary s n then Some (take n s) else None)"

definition bind_from_str :: "string \<Rightarrow> bind result" where
  "bind_from_str s =
     (if str_get_prefix 6 s = Some ''tcp://''
      then Ok \<lparr>bind_addr = drop 6 s, bind_protocol = Tcp\<rparr>
      else if str_get_prefix 6 s = Some ''udp://''
      then Ok \<lparr>bind_addr = drop 6 s, bind_protocol = Udp\<rparr>
      else Ok \<lparr>bind_addr = s, bind_protocol = Udp\<rparr>)"

definition default_server_config :: server_config where
  "default_server_config =
     \<lparr>server_bind = \<lparr>bind_addr = ''0.0.0.0:12201'', bind_protocol = Udp\<rparr>,
      tcp_keep_alive_secs = 2 * 60, tcp_max_size_bytes = 1024 * 256,
      server_certificate = None\<rparr>"

section \<open>Setting up\<close>

record ('a, 'f, 'k, 'p, 't) net =
  start_runtime :: "string + unit"
  parse_addr :: "string \<Rightarrow> 'a result"
  bind_udp :: "'a \<Rightarrow> unit result"
  bind_tcp :: "'a \<Rightarrow> unit result"
  open_file :: "string \<Rightarrow> 'f result"
  pem_certs :: "'f \<Rightarrow> 'k list result"
  pem_pkcs8_keys :: "'f \<Rightarrow> 'p list result"
  sampler_joins :: bool
  tls_config :: "'k list \<Rightarrow> 'p \<Rightarrow> 't result"

datatype 't incoming = Udp_incoming | Tcp_incoming "'t tcp_stream"

text \<open>The TLS configuration of a certificate: the first PKCS8 key of the key file is used.\<close>

definition load_tls ::
  "('a, 'f, 'k, 'p, 't) net \<Rightarrow> certificate \<Rightarrow> 't result" where
  "load_tls n c =
     outcome_bind (open_file n (cert_path c)) (\<lambda>f.
     outcome_bind (pem_certs n f) (\<lambda>cert.
     outcome_bind (open_file n (private_key_path c)) (\<lambda>f.
     outcome_bind (pem_pkcs8_keys n f) (\<lambda>keys.
       case keys of
         [] \<Rightarrow> Err (NoPkcs8Keys (private_key_path c))
       | key # _ \<Rightarrow> tls_config n cert key))))"

definition setup_tls ::
  "('a, 'f, 'k, 'p, 't) net \<Rightarrow> certificate option \<Rightarrow> diag \<Rightarrow> diag \<times> 't option result" where
  "setup_tls n cert d =
     (case cert of
        None \<Rightarrow> (d, Ok None)
      | Some c \<Rightarrow> (emit ''Using TLS'' d, outcome_bind (load_tls n c) (\<lambda>t. Ok (Some t))))"

definition setup_incoming ::
  "('a, 'f, 'k, 'p, 't) net \<Rightarrow> server_config \<Rightarrow> 'a \<Rightarrow> diag \<Rightarrow> diag \<times> 't incoming result" where
  "setup_incoming n cfg addr d =
     (case bind_protocol (server_bind cfg) of
        Udp \<Rightarrow>
          if server_certificate cfg \<noteq> None then (d, Err TlsOverUdp)
          else (case bind_udp n addr of
                  Ok _ \<Rightarrow> (udp_build d, Ok Udp_incoming)
                | Err e \<Rightarrow> (d, Err e)
                | Panic p \<Rightarrow> (d, Panic p))
      | Tcp \<Rightarrow>
          (case setup_tls n (server_certificate cfg) d of
             (d, Ok tls) \<Rightarrow>
               (case bind_tcp n addr of
                  Ok _ \<Rightarrow>
                    (case tcp_build (from_secs (tcp_keep_alive_secs cfg)) (tcp_max_size_bytes cfg) tls d of
                       (d, st) \<Rightarrow> (d, Ok (Tcp_incoming st)))
                | Err e \<Rightarrow> (d, Err e)
                | Panic p \<Rightarrow> (d, Panic p))
           | (d, Err e) \<Rightarrow> (d, Err e)
           | (d, Panic p) \<Rightarrow> (d, Panic p)))"

section \<open>The loop\<close>

datatype server_event =
    Incoming "received result option"
  | Handle_closed
  | Ctrl_c

text \<open>How a turn ends: go on, leave the loop, unwind, or never end.\<close>

datatype control = Continue | Break | Unwind panic_payload | Hang

text \<open>\<open>process\<close> is state passing: it may change the diagnostics and a state of its own.\<close>

type_synonym 'w process_fn = "message \<Rightarrow> diag \<Rightarrow> 'w \<Rightarrow> (diag \<times> 'w \<times> unit result) option"

fun server_step :: "'w process_fn \<Rightarrow> server_event \<Rightarrow> diag \<Rightarrow> 'w \<Rightarrow> diag \<times> 'w \<times> control" where
  "server_step process (Incoming (Some (Ok (Complete msg)))) d w =
     (let d = increment (Server M_receive_ok) d
      in case process msg d w of
           Some (d, w, Ok _) \<Rightarrow> (increment (Server M_process_ok) d, w, Continue)
         | Some (d, w, Err err) \<Rightarrow>
             (emit_err err ''GELF processing failed'' (increment (Server M_process_err) d), w,
              Continue)
         | Some (d, w, Panic p) \<Rightarrow> (d, w, Unwind p)
         | None \<Rightarrow> (d, w, Hang))"
| "server_step process (Incoming (Some (Ok Incomplete))) d w = (d, w, Continue)"
| "server_step process (Incoming (Some (Ok (Received_error err)))) d w =
     (emit_err err ''GELF processing failed'' (increment (Server M_receive_err) d), w, Continue)"
| "server_step process (Incoming (Some (Err err))) d w =
     (emit_err err ''GELF processing failed irrecoverably'' (increment (Server M_receive_err) d),
      w, Break)"
| "server_step process (Incoming (Some (Panic p))) d w = (d, w, Unwind p)"
| "server_step process (Incoming None) d w =
     (d, w, Unwind (Panic_str
        ''internal error: entered unreachable code: receiver stream should never terminate''))"
| "server_step process Handle_closed d w = (emit ''Handle closed; shutting down'' d, w, Break)"
| "server_step process Ctrl_c d w =
     (emit ''Termination signal received; shutting down'' d, w, Break)"

text \<open>The loop over the events so far. \<open>Continue\<close> at the end: it waits for the next event.\<close>

fun server_loop ::
  "'w process_fn \<Rightarrow> server_event list \<Rightarrow> diag \<Rightarrow> 'w \<Rightarrow> diag \<times> 'w \<times> control" where
  "server_loop process [] d w = (d, w, Continue)"
| "server_loop process (ev # evs) d w =
     (case server_step process ev d w of
        (d, w, Continue) \<Rightarrow> server_loop process evs d w
      | (d, w, ctl) \<Rightarrow> (d, w, ctl))"

section \<open>The server\<close>

record 'a server =
  srv_config :: server_config
  srv_addr :: 'a
  srv_handle :: bool

definition build_server ::
  "('a, 'f, 'k, 'p, 't) net \<Rightarrow> server_config \<Rightarrow> diag \<Rightarrow> diag \<times> 'a server result" where
  "build_server n cfg d =
     (emit ''Starting GELF server'' d,
      outcome_bind (parse_addr n (bind_addr (server_bind cfg))) (\<lambda>addr.
        Ok \<lparr>srv_config = cfg, srv_addr = addr, srv_handle = True\<rparr>))"

definition take_handle :: "'a server \<Rightarrow> 'a server \<times> bool" where
  "take_handle s = (s\<lparr>srv_handle := False\<rparr>, srv_handle s)"

text \<open>
  The channel from the handle to the loop: nothing sent yet, sent, or received. \<open>Handle::close\<close>
  sends once; it says whether the other side was there to be told.
\<close>

datatype oneshot = Chan_open | Chan_sent | Chan_closed

definition handle_close :: "oneshot \<Rightarrow> oneshot \<times> bool" where
  "handle_close ch = (if ch = Chan_open then (Chan_sent, True) else (ch, False))"

text \<open>
  The future of the server: set up, loop, and report an error of the setup. The result is
  how it ends, \<open>Break\<close> standing for its return.
\<close>

definition run_server ::
  "('a, 'f, 'k, 'p, 't) net \<Rightarrow> 'w process_fn \<Rightarrow> 'a server \<Rightarrow> ('t incoming \<Rightarrow> server_event list) \<Rightarrow>
   diag \<Rightarrow> 'w \<Rightarrow> diag \<times> 'w \<times> control" where
  "run_server n process s events d w =
     (case setup_incoming n (srv_config s) (srv_addr s) d of
        (d, Ok inc) \<Rightarrow>
          (case server_loop process (events inc) d w of
             (d, w, Break) \<Rightarrow> (emit ''Stopping GELF server'' d, w, Break)
           | (d, w, ctl) \<Rightarrow> (d, w, ctl))
      | (d, Err e) \<Rightarrow> (emit_err e ''GELF server failed'' d, w, Break)
      | (d, Panic p) \<Rightarrow> (d, w, Unwind p))"

text \<open>\<open>Server::run\<close>: on a fresh runtime; that there is none is a panic with the error's text.\<close>

definition server_run ::
  "('a, 'f, 'k, 'p, 't) net \<Rightarrow> 'w process_fn \<Rightarrow> 'a server \<Rightarrow> ('t incoming \<Rightarrow> server_event list) \<Rightarrow>
   diag \<Rightarrow> 'w \<Rightarrow> diag \<times> 'w \<times> control" where
  "server_run n process s events d w =
     (case start_runtime n of
        Inl e \<Rightarrow> (d, w, Unwind (Panic_string (''failed to start new Runtime: '' @ e)))
      | Inr _ \<Rightarrow> run_server n process s events d w)"

end
