(* ===== verification/Process_Str.thy ===== *)
theory Process_Str
  imports Diagnostics "HOL-Library.Char_ord" "HOL-Library.List_Lexorder"
begin

text \<open>
  \<open>process/str.rs\<close>: the two string types of the processor. \<open>Str\<close> is borrowed from the
  input or owned, \<open>Inlinable\<close> is stored inline when it is short. Both are compared, hashed
  and read through \<open>as_ref\<close>. The type of an owned string is a parameter of both, and with
  it the \<open>as_ref\<close> and \<open>from\<close> of that type. Strings are sequences of UTF-8 bytes, so that
  the lexicographic order of \<open>string\<close> is that of \<open>str\<close>. The hash map with \<open>Str\<close> keys
  is here too, since its keys are compared by \<open>PartialEq\<close> of \<open>Str\<close>.
\<close>

section \<open>Borrowed or owned\<close>

datatype 's str = Borrowed string | Owned 's

fun str_as_ref :: "('s \<Rightarrow> string) \<Rightarrow> 's str \<Rightarrow> string" where
  "str_as_ref as_ref (Borrowed s) = s"
| "str_as_ref as_ref (Owned s) = as_ref s"

fun str_into_owned :: "string str \<Rightarrow> string str" where
  "str_into_owned (Borrowed s) = Owned s"
| "str_into_owned (Owned s) = Owned s"

text \<open>The two sides of a comparison may own their strings in different types.\<close>

definition str_eq :: "('a \<Rightarrow> string) \<Rightarrow> ('b \<Rightarrow> string) \<Rightarrow> 'a str \<Rightarrow> 'b str \<Rightarrow> bool" where
  "str_eq as_a as_b x y \<longleftrightarrow> str_as_ref as_a x = str_as_ref as_b y"

definition str_hash :: "(string \<Rightarrow> 'h) \<Rightarrow> ('s \<Rightarrow> string) \<Rightarrow> 's str \<Rightarrow> 'h" where
  "str_hash hash as_ref x = hash (str_as_ref as_ref x)"

datatype ordering = Less | Equal | Greater

definition string_cmp :: "string \<Rightarrow> string \<Rightarrow> ordering" where
  "string_cmp a b = (if a < b then Less else if a = b then Equal else Greater)"

definition str_cmp :: "('a \<Rightarrow> string) \<Rightarrow> ('b \<Rightarrow> string) \<Rightarrow> 'a str \<Rightarrow> 'b str \<Rightarrow> ordering" where
  "str_cmp as_a as_b x y = string_cmp (str_as_ref as_a x) (str_as_ref as_b y)"

definition str_partial_cmp ::
  "('a \<Rightarrow> string) \<Rightarrow> ('b \<Rightarrow> string) \<Rightarrow> 'a str \<Rightarrow> 'b str \<Rightarrow> ordering option" where
  "str_partial_cmp as_a as_b x y = Some (string_cmp (str_as_ref as_a x) (str_as_ref as_b y))"

text \<open>\<open>Serialize\<close>: a borrowed string is written as it is, an owned one by its own type.\<close>

fun str_serialize :: "(string \<Rightarrow> 'o) \<Rightarrow> ('s \<Rightarrow> 'o) \<Rightarrow> 's str \<Rightarrow> 'o" where
  "str_serialize serialize_str serialize (Borrowed s) = serialize_str s"
| "str_serialize serialize_str serialize (Owned s) = serialize s"

text \<open>
  What a deserializer hands to a visitor for a string: text in a scratch buffer, text
  borrowed from the input, or an owned string.
\<close>

datatype visited = Visit_str string | Visit_borrowed_str string | Visit_string string

fun visited_text :: "visited \<Rightarrow> string" where
  "visited_text (Visit_str s) = s"
| "visited_text (Visit_borrowed_str s) = s"
| "visited_text (Visit_string s) = s"

fun str_deserialize :: "(string \<Rightarrow> 's) \<Rightarrow> visited \<Rightarrow> 's str" where
  "str_deserialize from (Visit_str s) = Owned (from s)"
| "str_deserialize from (Visit_borrowed_str s) = Borrowed s"
| "str_deserialize from (Visit_string s) = Owned (from s)"

section \<open>Inline or spilled\<close>

datatype 's inlinable = Inline string | Spilled 's

fun inlinable_as_ref :: "('s \<Rightarrow> string) \<Rightarrow> 's inlinable \<Rightarrow> string" where
  "inlinable_as_ref as_ref (Inline s) = s"
| "inlinable_as_ref as_ref (Spilled s) = as_ref s"

text \<open>
  The visitor has only \<open>visit_str\<close>; the other two methods of \<open>Visitor\<close> forward to it.
  The capacity is a constant of the library \<open>inlinable_string\<close>, an argument here.
\<close>

definition inlinable_deserialize :: "nat \<Rightarrow> (string \<Rightarrow> 's) \<Rightarrow> visited \<Rightarrow> 's inlinable" where
  "inlinable_deserialize capacity from v =
     (let s = visited_text v
      in if capacity < length s then Spilled (from s) else Inline s)"

section \<open>Hash maps with such keys\<close>

text \<open>
  \<open>HashMap<Str, V>\<close>: \<open>insert\<close> under a key that is equal to one in the map replaces the
  value, keeps the key that is there, and returns the old value.
\<close>

type_synonym 'v str_map = "(string str \<times> 'v) list"

abbreviation str_text :: "string str \<Rightarrow> string" where
  "str_text \<equiv> str_as_ref (\<lambda>s. s)"

fun sm_get :: "'v str_map \<Rightarrow> string \<Rightarrow> 'v option" where
  "sm_get [] k = None"
| "sm_get ((k', v) # m) k = (if str_text k' = k then Some v else sm_get m k)"

fun sm_insert :: "string str \<Rightarrow> 'v \<Rightarrow> 'v str_map \<Rightarrow> 'v str_map" where
  "sm_insert k v [] = [(k, v)]"
| "sm_insert k v ((k', v') # m) =
     (if str_text k' = str_text k then (k', v) # m else (k', v') # sm_insert k v m)"

definition sm_remove :: "string \<Rightarrow> 'v str_map \<Rightarrow> 'v str_map" where
  "sm_remove k m = filter (\<lambda>(k', _). str_text k' \<noteq> k) m"

definition sm_keys :: "'v str_map \<Rightarrow> string list" where
  "sm_keys m = map (\<lambda>(k, _). str_text k) m"

definition sm_wf :: "'v str_map \<Rightarrow> bool" where
  "sm_wf m \<longleftrightarrow> distinct (sm_keys m)"

lemma sm_get_insert [map_simps]:
  "sm_get (sm_insert k v m) k' = (if k' = str_text k then Some v else sm_get m k')"
  by (induction m) auto

lemma sm_get_remove [map_simps]:
  "sm_get (sm_remove k m) k' = (if k' = k then None else sm_get m k')"
  by (induction m) (auto simp: sm_remove_def)

lemma sm_get_map_of: "sm_get m = map_of (map (\<lambda>(k, v). (str_text k, v)) m)"
  by (rule ext, induction m) auto

lemma set_sm_keys_insert [simp]:
  "set (sm_keys (sm_insert k v m)) = insert (str_text k) (set (sm_keys m))"
  by (induction k v m rule: sm_insert.induct) (auto simp: sm_keys_def)

lemma sm_wf_insert [wf_intros]: "sm_wf m \<Longrightarrow> sm_wf (sm_insert k v m)"
proof (induction m)
  case (Cons e m)
  then show ?case
    using set_sm_keys_insert [of k v m] by (cases e) (auto simp: sm_wf_def sm_keys_def)
qed (simp add: sm_wf_def sm_keys_def)

lemma sm_wf_remove [wf_intros]: "sm_wf m \<Longrightarrow> sm_wf (sm_remove k m)"
  by (induction m) (auto simp: sm_wf_def sm_keys_def sm_remove_def)

text \<open>Under the texts of its keys the map meets the interface of a finite map.\<close>

interpretation sm: finite_map "[]" "\<lambda>k. sm_insert (Borrowed k)" sm_remove sm_get length sm_wf
proof
  show "length m = card (dom (sm_get m))" if "sm_wf m" for m :: "'v str_map"
    using that length_distinct_alist [of "map (\<lambda>(k, v). (str_text k, v)) m"]
    by (simp add: sm_wf_def sm_keys_def sm_get_map_of comp_def case_prod_unfold)
  show "finite (dom (sm_get m))" for m :: "'v str_map"
    by (simp add: sm_get_map_of finite_dom_map_of)
qed (auto simp: map_simps sm_wf_insert sm_wf_remove, simp add: sm_wf_def sm_keys_def)

section \<open>One type of text\<close>

text \<open>
  The two kinds of string are one type of text. Whether a string is borrowed or owned
  makes no difference to equality, order or hash: equality is equality of the texts, equal
  strings have equal hashes, the order is total, agrees with equality, and turns round when
  its sides are exchanged. So both kinds can be keys of one map.
\<close>

lemma str_key_laws:
  "(str_eq ra rb x y \<longleftrightarrow> str_as_ref ra x = str_as_ref rb y) \<and>
   (str_cmp ra rb x y = Equal \<longleftrightarrow> str_eq ra rb x y) \<and>
   (str_eq ra rb x y \<longrightarrow> str_hash h ra x = str_hash h rb y) \<and>
   (str_cmp ra rb x y = Less \<longleftrightarrow> str_cmp rb ra y x = Greater) \<and>
   (str_cmp ra rb x y = Less \<longrightarrow> str_cmp rb rc y z = Less \<longrightarrow> str_cmp ra rc x z = Less) \<and>
   str_partial_cmp ra rb x y = Some (str_cmp ra rb x y)"
  by (auto simp: str_eq_def str_cmp_def str_partial_cmp_def str_hash_def string_cmp_def
      split: if_splits)

text \<open>
  Reading a string keeps its text. Whatever the deserializer hands over, the string that
  is made has that text, is borrowed only if the text was, and is stored inline exactly when
  it fits; taking ownership keeps the text too.
\<close>

lemma deserialized_text:
  assumes "\<forall>s. as_ref (from s) = s"
  shows "str_as_ref as_ref (str_deserialize from v) = visited_text v \<and>
    inlinable_as_ref as_ref (inlinable_deserialize capacity from v) = visited_text v \<and>
    ((\<exists>s. str_deserialize from v = Borrowed s) \<longleftrightarrow> (\<exists>s. v = Visit_borrowed_str s)) \<and>
    ((\<exists>s. inlinable_deserialize capacity from v = Inline s) \<longleftrightarrow> length (visited_text v) \<le> capacity) \<and>
    str_text (str_into_owned x) = str_text x"
  using assms by (cases v; cases x) (auto simp: inlinable_deserialize_def Let_def)

end
