(* ===== verification/Clef.thy ===== *)
theory Clef
  imports Process_Str Sys_Time
begin

text \<open>
  \<open>process/clef.rs\<close>: the events the program writes. A timestamp is read from RFC 3339 text
  or from the decimal number of a GELF message. Libraries are parameters: the arithmetic of
  \<open>rust_decimal\<close>, the RFC 3339 reader and writer of \<open>humantime\<close>, and the JSON reader.
\<close>

section \<open>JSON values\<close>

text \<open>
  \<open>serde_json::Value\<close>, with the library's numbers as a type parameter. Objects are
  \<open>BTreeMap\<close>s from names to values.
\<close>

datatype 'n json =
    JNull | JBool bool | JNumber 'n | JString string | JArray "'n json list"
  | JObject "(string \<times> 'n json) list"

fun as_str :: "'n json \<Rightarrow> string option" where
  "as_str (JString s) = Some s"
| "as_str _ = None"

text \<open>\<open>Str::try_from_value\<close> of \<open>str.rs\<close>.\<close>

definition try_from_value :: "'n json \<Rightarrow> 's str option" where
  "try_from_value v = map_option Borrowed (as_str v)"

section \<open>Timestamps\<close>

datatype timestamp = Timestamp system_time

text \<open>The operations of \<open>rust_decimal::Decimal\<close> that the conversion calls.\<close>

record 'd decimal =
  is_sign_negative :: "'d \<Rightarrow> bool"
  dec_trunc :: "'d \<Rightarrow> 'd"
  dec_fract :: "'d \<Rightarrow> 'd"
  dec_to_u64 :: "'d \<Rightarrow> u64 option"
  dec_to_u32 :: "'d \<Rightarrow> u32 option"
  dec_set_scale :: "'d \<Rightarrow> u32 \<Rightarrow> 'd option"
  dec_scale :: "'d \<Rightarrow> u32"

definition timestamp_now :: "system_time \<Rightarrow> timestamp" where
  "timestamp_now now = Timestamp now"

text \<open>The reader of RFC 3339 text gives an error or a time.\<close>

type_synonym rfc3339 = "string \<Rightarrow> string + system_time"

definition try_parse_rfc3339 :: "rfc3339 \<Rightarrow> string \<Rightarrow> timestamp option" where
  "try_parse_rfc3339 parse_rfc3339 ts =
     (case parse_rfc3339 ts of Inl _ \<Rightarrow> None | Inr t \<Rightarrow> Some (Timestamp t))"

text \<open>
  \<open>Timestamp::from_decimal\<close>: seconds from the integral part, nanoseconds from the digits of
  the fraction times a power of ten that is computed in \<open>u32\<close>.
\<close>

definition from_decimal :: "bool \<Rightarrow> 'd decimal \<Rightarrow> 'd \<Rightarrow> timestamp option result" where
  "from_decimal dbg dec ts =
     (if is_sign_negative dec ts then Ok (Some (Timestamp 0))
      else
        (case dec_to_u64 dec (dec_trunc dec ts) of
           None \<Rightarrow> Ok None
         | Some secs \<Rightarrow>
             (case dec_set_scale dec (dec_fract dec ts) 0 of
                None \<Rightarrow> Ok None
              | Some fract \<Rightarrow>
                  (case dec_to_u32 dec fract of
                     None \<Rightarrow> Ok None
                   | Some scaled_fract \<Rightarrow>
                       outcome_bind (sub_u32 dbg 9 (dec_scale dec ts)) (\<lambda>e.
                       outcome_bind (pow_u32 dbg 10 e) (\<lambda>p.
                       outcome_bind (mul_u32 dbg scaled_fract p) (\<lambda>nanos.
                       outcome_bind (duration_new secs nanos) (\<lambda>d.
                         Ok (map_option Timestamp (system_time_checked_add 0 d))))))))))"

text \<open>
  \<open>Serialize\<close> and \<open>Deserialize\<close> of a timestamp: its RFC 3339 text. The writer is what
  \<open>collect_str\<close> of the serializer makes of \<open>humantime\<close>'s display of a time: the text, an
  error or a panic.
\<close>

fun timestamp_serialize :: "(system_time \<Rightarrow> string result) \<Rightarrow> timestamp \<Rightarrow> string result" where
  "timestamp_serialize format_rfc3339 (Timestamp t) = format_rfc3339 t"

definition timestamp_deserialize :: "rfc3339 \<Rightarrow> visited \<Rightarrow> timestamp result" where
  "timestamp_deserialize parse_rfc3339 v =
     (case parse_rfc3339 (visited_text v) of
        Inl e \<Rightarrow> Err (Library e []) | Inr t \<Rightarrow> Ok (Timestamp t))"

section \<open>Events\<close>

record 'n clef =
  cm_timestamp :: "timestamp option"
  cm_level :: "string str option"
  cm_message :: "string str option"
  cm_message_template :: "string str option"
  cm_exception :: "string str option"
  cm_additional :: "'n json str_map"

definition from_message :: "string \<Rightarrow> 'n clef" where
  "from_message msg =
     \<lparr>cm_timestamp = None, cm_level = None, cm_message = Some (Borrowed msg),
      cm_message_template = None, cm_exception = None, cm_additional = []\<rparr>"

text \<open>\<open>maybe_from_json\<close>: only text that starts with a brace is tried as an event.\<close>

definition maybe_from_json :: "(string \<Rightarrow> 'n clef option) \<Rightarrow> string \<Rightarrow> 'n clef option" where
  "maybe_from_json from_str json =
     (if json \<noteq> [] \<and> hd json = CHR ''{'' then from_str json else None)"

text \<open>
  The derived \<open>Serialize\<close>: the members of the object that is written, in order. Timestamp
  and level are always there (\<open>null\<close> when absent), the others only when present, and the
  additional members follow. The timestamp comes first; when it cannot be written, nothing
  is.
\<close>

definition timestamp_json :: "(system_time \<Rightarrow> string result) \<Rightarrow> timestamp option \<Rightarrow> 'n json result" where
  "timestamp_json format_rfc3339 ts =
     (case ts of
        None \<Rightarrow> Ok JNull
      | Some t \<Rightarrow> outcome_bind (timestamp_serialize format_rfc3339 t) (\<lambda>s. Ok (JString s)))"

definition clef_fields :: "'n clef \<Rightarrow> (string \<times> 'n json) list" where
  "clef_fields c =
     (let text = (\<lambda>s. JString (str_text s));
          skipped = (\<lambda>name x. case x of None \<Rightarrow> [] | Some s \<Rightarrow> [(name, text s)])
      in [(''@l'', case cm_level c of None \<Rightarrow> JNull | Some s \<Rightarrow> text s)]
         @ skipped ''@m'' (cm_message c)
         @ skipped ''@mt'' (cm_message_template c)
         @ skipped ''@x'' (cm_exception c)
         @ map (\<lambda>(k, v). (str_text k, v)) (cm_additional c))"

definition clef_members ::
  "(system_time \<Rightarrow> string result) \<Rightarrow> 'n clef \<Rightarrow> (string \<times> 'n json) list result" where
  "clef_members format_rfc3339 c =
     outcome_bind (timestamp_json format_rfc3339 (cm_timestamp c)) (\<lambda>t.
       Ok ((''@t'', t) # clef_fields c))"

text \<open>
  What is documented of the writer: it writes the times from 1970 up to the year 9999. The
  display of any other time fails or panics, and \<open>collect_str\<close> of \<open>serde_json\<close>, which
  expects a display not to fail, panics.
\<close>

definition printable_time :: "system_time \<Rightarrow> bool" where
  "printable_time t \<longleftrightarrow> 0 \<le> t \<and> t < 253402300800 * 1000000000"

definition rfc3339_contract :: "(system_time \<Rightarrow> string result) \<Rightarrow> bool" where
  "rfc3339_contract fmt \<longleftrightarrow>
     (\<forall>t. if printable_time t then \<exists>s. fmt t = Ok s else \<exists>p. fmt t = Panic p)"

lemma clef_members_Ok:
  "clef_members fmt c = Ok ms \<longleftrightarrow>
   (\<exists>t. timestamp_json fmt (cm_timestamp c) = Ok t \<and> ms = (''@t'', t) # clef_fields c)"
  by (auto simp: clef_members_def outcome_bind_Ok_iff)

lemma clef_members_written:
  assumes "rfc3339_contract fmt" and "cm_timestamp c = Some (Timestamp t)"
  shows "if printable_time t then \<exists>s. fmt t = Ok s \<and> clef_members fmt c = Ok ((''@t'', JString s) # clef_fields c)
    else \<exists>p. clef_members fmt c = Panic p"
proof -
  have "if printable_time t then \<exists>s. fmt t = Ok s else \<exists>p. fmt t = Panic p"
    using assms(1) by (simp add: rfc3339_contract_def)
  with assms(2) show ?thesis
    by (auto simp: clef_members_def timestamp_json_def split: if_splits)
qed

section \<open>Decimal timestamps\<close>

text \<open>
  What the conversion relies on of a decimal: it is a sign, an unsigned coefficient and a
  scale of at most 28; truncating keeps the integral part, \<open>fract\<close> the other digits at the
  same scale, \<open>set_scale\<close> changes only the scale, and a conversion to an unsigned integer
  succeeds when the value fits.
\<close>

definition decimal_contract ::
  "'d decimal \<Rightarrow> ('d \<Rightarrow> bool) \<Rightarrow> ('d \<Rightarrow> nat) \<Rightarrow> bool" where
  "decimal_contract dec neg coeff \<longleftrightarrow>
     (\<forall>x. is_sign_negative dec x = neg x) \<and>
     (\<forall>x. dec_scale dec x \<le> 28) \<and>
     (\<forall>x. \<not> neg x \<longrightarrow>
        dec_to_u64 dec (dec_trunc dec x) =
          (let s = coeff x div 10 ^ unat (dec_scale dec x)
           in if s < 2 ^ 64 then Some (of_nat s) else None)) \<and>
     (\<forall>x. \<not> neg x \<longrightarrow>
        Option.bind (dec_set_scale dec (dec_fract dec x) 0) (dec_to_u32 dec) =
          (let f = coeff x mod 10 ^ unat (dec_scale dec x)
           in if f < 2 ^ 32 then Some (of_nat f) else None))"


lemma unat_pow10: "n \<le> 9 \<Longrightarrow> unat ((10 :: u32) ^ n) = 10 ^ n"
  using power_increasing [of n 9 "10 :: nat"] unat_of_nat_eq [of "10 ^ n", where 'a = 32]
  by simp

text \<open>The power is 0 once it has 32 factors of 2: what a wrapped exponent gives.\<close>

lemma pow10_wraps_to_0: "32 \<le> n \<Longrightarrow> (10 :: u32) ^ n = 0"
proof -
  assume "32 \<le> n"
  then have "(10 :: u32) ^ n = 10 ^ 32 * 10 ^ (n - 32)"
    by (metis le_add_diff_inverse power_add)
  also have "(10 :: u32) ^ 32 = 0"
    by simp
  finally show ?thesis by simp
qed

lemma fraction_scaled:
  assumes "s \<le> 9"
  shows "(c mod 10 ^ s) * 10 ^ (9 - s) < (1000000000 :: nat)"
    and "c div 10 ^ s * 1000000000 + (c mod 10 ^ s) * 10 ^ (9 - s) = c * 10 ^ (9 - s)"
proof -
  have split: "(10 :: nat) ^ s * 10 ^ (9 - s) = 1000000000"
    using assms by (simp flip: power_add)
  have "c mod 10 ^ s < (10 :: nat) ^ s" by simp
  then have "(c mod 10 ^ s) * 10 ^ (9 - s) < (10 :: nat) ^ s * 10 ^ (9 - s)"
    by simp
  with split show "(c mod 10 ^ s) * 10 ^ (9 - s) < (1000000000 :: nat)" by simp
  have "c * 10 ^ (9 - s) = (c div 10 ^ s * 10 ^ s + c mod 10 ^ s) * 10 ^ (9 - s)"
    by (simp only: div_mult_mod_eq)
  also have "\<dots> = c div 10 ^ s * (10 ^ s * 10 ^ (9 - s)) + (c mod 10 ^ s) * 10 ^ (9 - s)"
    by (simp only: distrib_right mult.assoc)
  finally show "c div 10 ^ s * 1000000000 + (c mod 10 ^ s) * 10 ^ (9 - s) = c * 10 ^ (9 - s)"
    by (simp add: split)
qed

lemma nanos_short_scale:
  assumes "unat s \<le> 9" and f: "f < 10 ^ unat s"
  shows "outcome_bind (sub_u32 dbg 9 s) (\<lambda>e. outcome_bind (pow_u32 dbg 10 e) (\<lambda>p.
      mul_u32 dbg (of_nat f) p)) = (Ok (of_nat (f * 10 ^ (9 - unat s))) :: u32 result)"
proof -
  have s: "\<not> 9 < s" "unat (9 - s) = 9 - unat s"
    using assms(1) by (simp_all add: word_less_nat_alt unat_sub word_le_nat_alt)
  have "(10 :: nat) ^ (9 - unat s) \<le> 10 ^ 9"
    by (rule power_increasing) simp_all
  then have pow: "\<not> 2 ^ 32 \<le> (10 :: nat) ^ (9 - unat s)" by simp
  have "(10 :: nat) ^ unat s \<le> 10 ^ 9"
    using assms(1) by (intro power_increasing) simp_all
  with f have f32: "unat (of_nat f :: u32) = f"
    by (simp add: unat_of_nat_eq)
  have "\<not> 2 ^ 32 \<le> f * 10 ^ (9 - unat s)"
    using fraction_scaled(1) [OF assms(1), of f] f by simp
  with s pow f32 show ?thesis
    by (simp add: sub_u32_def pow_u32_def mul_u32_def unat_pow10)
qed

lemma duration_new_of_nat:
  "s < 2 ^ 64 \<Longrightarrow> n < 1000000000 \<Longrightarrow>
   duration_new (of_nat s) (of_nat n) = Ok (s * 1000000000 + n)"
  by (simp add: duration_new_def unat_of_nat_eq)

lemma decimal_contractD:
  assumes "decimal_contract dec neg coeff" and "\<not> neg x"
  shows "\<not> is_sign_negative dec x" "unat (dec_scale dec x) \<le> 28"
    "dec_to_u64 dec (dec_trunc dec x) =
       (let s = coeff x div 10 ^ unat (dec_scale dec x) in if s < 2 ^ 64 then Some (of_nat s) else None)"
    "Option.bind (dec_set_scale dec (dec_fract dec x) 0) (dec_to_u32 dec) =
       (let f = coeff x mod 10 ^ unat (dec_scale dec x) in if f < 2 ^ 32 then Some (of_nat f) else None)"
  using assms by (auto simp: decimal_contract_def word_le_nat_alt)

text \<open>The conversion with its two library lookups put together.\<close>

lemma from_decimal_unfold:
  "\<not> is_sign_negative dec ts \<Longrightarrow>
   from_decimal dbg dec ts =
     (case dec_to_u64 dec (dec_trunc dec ts) of
        None \<Rightarrow> Ok None
      | Some secs \<Rightarrow>
          (case Option.bind (dec_set_scale dec (dec_fract dec ts) 0) (dec_to_u32 dec) of
             None \<Rightarrow> Ok None
           | Some f \<Rightarrow>
               outcome_bind (outcome_bind (sub_u32 dbg 9 (dec_scale dec ts)) (\<lambda>e.
                 outcome_bind (pow_u32 dbg 10 e) (\<lambda>p. mul_u32 dbg f p))) (\<lambda>nanos.
               outcome_bind (duration_new secs nanos) (\<lambda>d.
                 Ok (map_option Timestamp (system_time_checked_add 0 d))))))"
  by (auto simp: from_decimal_def outcome_bind_assoc split: option.splits bind_splits)


text \<open>
  A decimal that meets the contract: sign, coefficient and scale, the scale read as at most
  28.
\<close>

definition sample_decimal :: "(bool \<times> nat \<times> nat) decimal" where
  "sample_decimal =
     \<lparr>is_sign_negative = fst,
      dec_trunc = (\<lambda>(n, c, s). (n, c div 10 ^ min s 28, 0)),
      dec_fract = (\<lambda>(n, c, s). (n, c mod 10 ^ min s 28, s)),
      dec_to_u64 = (\<lambda>(n, c, s). let v = c div 10 ^ min s 28 in if v < 2 ^ 64 then Some (of_nat v) else None),
      dec_to_u32 = (\<lambda>(n, c, s). let v = c div 10 ^ min s 28 in if v < 2 ^ 32 then Some (of_nat v) else None),
      dec_set_scale = (\<lambda>(n, c, s) k. if k \<le> 28 then Some (n, c, unat k) else None),
      dec_scale = (\<lambda>(n, c, s). of_nat (min s 28))\<rparr>"

lemma sample_decimal_contract: "decimal_contract sample_decimal fst (\<lambda>(n, c, s). c)"
proof -
  have "unat (of_nat (min s 28) :: u32) = min s 28" for s
    by (rule unat_of_nat_eq) (simp add: min_def)
  then show ?thesis
    by (auto simp: decimal_contract_def sample_decimal_def Let_def word_le_nat_alt)
qed

text \<open>The conversion of a decimal with at most nine places.\<close>

lemma from_decimal_short:
  assumes "decimal_contract dec neg coeff" and "\<not> neg x"
    and "unat (dec_scale dec x) \<le> 9"
    and "coeff x div 10 ^ unat (dec_scale dec x) < 2 ^ 63"
  shows "from_decimal dbg dec x =
    Ok (Some (Timestamp (int (coeff x * 10 ^ (9 - unat (dec_scale dec x))))))"
proof -
  let ?s = "unat (dec_scale dec x)"
  let ?secs = "coeff x div 10 ^ ?s" and ?f = "coeff x mod 10 ^ ?s"
  let ?nanos = "?f * 10 ^ (9 - ?s)"
  note d = decimal_contractD [OF assms(1,2)]
  have f: "?f < 10 ^ ?s" by simp
  have "(10 :: nat) ^ ?s \<le> 10 ^ 9"
    using assms(3) by (intro power_increasing) simp_all
  then have f32: "?f < 2 ^ 32"
    by (intro less_le_trans [OF f]) simp
  note nanos = fraction_scaled(1) [OF assms(3), of "coeff x"]
  have "duration_new (of_nat ?secs) (of_nat ?nanos) = Ok (?secs * 1000000000 + ?nanos)"
    using assms(4) nanos by (intro duration_new_of_nat) simp_all
  moreover have "system_time_checked_add 0 (?secs * 1000000000 + ?nanos) =
      Some (int (?secs * 1000000000 + ?nanos))"
    using assms(4) nanos by (simp add: system_time_checked_add_def flip: zdiv_int of_nat_add)
  ultimately show ?thesis
    using d assms(4) f32 nanos_short_scale [OF assms(3) f, of dbg]
      fraction_scaled(2) [OF assms(3), of "coeff x"]
    by (simp add: from_decimal_unfold Let_def)
qed


section \<open>Properties\<close>

text \<open>
  C21: decimal timestamps are exact to the nanosecond. A timestamp that is not negative, has
  at most nine decimal places and lies in the range of the clock becomes the time with
  exactly that many nanoseconds since the epoch, in a checked and in an unchecked build.
\<close>

theorem from_decimal_exact:
  assumes "decimal_contract dec neg coeff" and "\<not> neg x"
    and "unat (dec_scale dec x) \<le> 9"
    and "coeff x div 10 ^ unat (dec_scale dec x) < 2 ^ 63"
  shows "from_decimal dbg dec x =
    Ok (Some (Timestamp (int (coeff x * 10 ^ (9 - unat (dec_scale dec x))))))"
  by (rule from_decimal_short [OF assms])

theorem from_decimal_exact_witness:
  "from_decimal False sample_decimal (False, 13850538623072, 4) =
     Ok (Some (Timestamp 1385053862307200000))"
  using from_decimal_exact [OF sample_decimal_contract, of "(False, 13850538623072, 4)" False]
  by (simp add: sample_decimal_def)

text \<open>
  C37: a tenth decimal place breaks the conversion. With more than nine places the exponent
  \<open>9 - scale\<close> underflows. When the digits of the fraction fit 32 bits, an unchecked build
  drops the fraction altogether and a checked build panics; when they do not fit, the
  timestamp is given up.
\<close>

theorem from_decimal_long_fraction:
  assumes "decimal_contract dec neg coeff" and "\<not> neg x"
    and "9 < unat (dec_scale dec x)"
    and "coeff x div 10 ^ unat (dec_scale dec x) < 2 ^ 63"
  shows "from_decimal False dec x =
      Ok (if coeff x mod 10 ^ unat (dec_scale dec x) < 2 ^ 32
          then Some (Timestamp (int (coeff x div 10 ^ unat (dec_scale dec x) * 1000000000)))
          else None) \<and>
    (panics (from_decimal True dec x) \<longleftrightarrow> coeff x mod 10 ^ unat (dec_scale dec x) < 2 ^ 32)"
proof -
  let ?s = "unat (dec_scale dec x)"
  let ?secs = "coeff x div 10 ^ ?s" and ?f = "coeff x mod 10 ^ ?s"
  note d = decimal_contractD [OF assms(1,2)]
  have wrapped: "unat (9 - dec_scale dec x) = 9 + 2 ^ 32 - ?s"
    using assms(3) by (simp add: unat_sub_if')
  have zero: "(10 :: u32) ^ unat (9 - dec_scale dec x) = 0"
    unfolding wrapped using d(2) by (intro pow10_wraps_to_0) simp
  have under: "9 < dec_scale dec x"
    using assms(3) by (simp add: word_less_nat_alt)
  have "duration_new (of_nat ?secs) 0 = Ok (?secs * 1000000000)"
    using assms(4) by (simp add: duration_new_def unat_of_nat_eq)
  moreover have "system_time_checked_add 0 (?secs * 1000000000) =
      Some (int (?secs * 1000000000))"
    using assms(4) by (simp add: system_time_checked_add_def flip: zdiv_int)
  ultimately show ?thesis
    using d assms(4) under
    by (simp add: from_decimal_unfold Let_def sub_u32_def pow_u32_def mul_u32_def zero)
qed

theorem from_decimal_long_fraction_witness:
  "from_decimal False sample_decimal (False, 13850538621234567891, 10) =
     Ok (Some (Timestamp 1385053862000000000)) \<and>
   panics (from_decimal True sample_decimal (False, 13850538621234567891, 10))"
  using from_decimal_long_fraction [OF sample_decimal_contract, of "(False, 13850538621234567891, 10)"]
  by (simp add: sample_decimal_def)

end
