(* ===== verification/Reader.thy ===== *)
theory Reader
  imports Message
begin

text \<open>
  Reading a message (\<open>ChunkRead\<close>, \<open>Reader\<close> and \<open>into_reader\<close> of \<open>receive.rs\<close>) and the
  trait \<open>MemRead\<close> of \<open>io.rs\<close> with its implementation for slices. A read takes the
  reader's state and the length of the caller's buffer, and gives the new state and the
  bytes it put into the buffer. The decompressors belong to the library \<open>libflate\<close>: they
  are parameters, the fields of the record \<open>inflate\<close>.
\<close>

section \<open>Reading to the end\<close>

text \<open>
  \<open>Read::read_to_end\<close>: call \<open>read\<close> until it returns no bytes. How large a buffer the
  library offers next is its own choice, \<open>sz\<close>, which may depend on what was read so far.
  A reader that never ends gives \<open>None\<close>.
\<close>

partial_function (option) read_to_end ::
  "('s \<Rightarrow> nat \<Rightarrow> 's \<times> bytes result) \<Rightarrow> (nat \<Rightarrow> nat) \<Rightarrow> 's \<Rightarrow> bytes \<Rightarrow> bytes result option" where
  "read_to_end rd sz s acc =
     (case rd s (sz (length acc)) of
        (s', Ok bs) \<Rightarrow> if bs = [] then Some (Ok acc) else read_to_end rd sz s' (acc @ bs)
      | (s', Err e) \<Rightarrow> Some (Err e)
      | (s', Panic p) \<Rightarrow> Some (Panic p))"

text \<open>
  The contract of a reader: while bytes remain, a read into a non-empty buffer returns some
  of them, in order, and the rest stays.
\<close>

locale byte_reader =
  fixes rd :: "'s \<Rightarrow> nat \<Rightarrow> 's \<times> bytes result"
    and remaining :: "'s \<Rightarrow> bytes"
    and inv :: "'s \<Rightarrow> bool"
  assumes read_ok: "inv s \<Longrightarrow> \<exists>s' bs. rd s n = (s', Ok bs) \<and> inv s' \<and>
    remaining s = bs @ remaining s' \<and> length bs \<le> n \<and> (0 < n \<longrightarrow> remaining s \<noteq> [] \<longrightarrow> bs \<noteq> [])"
begin

lemma read_to_end_total:
  assumes "inv s" and sz: "\<And>k. 0 < sz k"
  shows "read_to_end rd sz s acc = Some (Ok (acc @ remaining s))"
  using assms(1)
proof (induction "length (remaining s)" arbitrary: s acc rule: less_induct)
  case less
  from read_ok [OF less.prems] obtain s' bs where
    r: "rd s (sz (length acc)) = (s', Ok bs)" "inv s'" "remaining s = bs @ remaining s'"
    and progress: "remaining s \<noteq> [] \<longrightarrow> bs \<noteq> []"
    using sz by blast
  show ?case
  proof (cases "bs = []")
    case True
    with r progress show ?thesis
      by (simp add: read_to_end.simps [of rd sz s acc])
  next
    case False
    with r have "length (remaining s') < length (remaining s)"
      by (cases bs) auto
    from less.hyps [OF this r(2), of "acc @ bs"] r False show ?thesis
      by (simp add: read_to_end.simps [of rd sz s acc])
  qed
qed

end

section \<open>Reading the chunks of a message\<close>

record chunk_read =
  cr_chunk :: nat
  cr_cursor :: nat
  cr_msg :: message

text \<open>
  The loop of \<open>ChunkRead::read\<close> for a chunked message: the index of the chunk, the cursor
  in it, the length of the buffer that is left, and what was read.
\<close>

function read_chunks ::
  "bytes list \<Rightarrow> nat \<Rightarrow> nat \<Rightarrow> nat \<Rightarrow> bytes \<Rightarrow> nat \<times> nat \<times> bytes result" where
  "read_chunks chunks ch cursor blen acc =
     (if 0 < blen then
        (if ch < length chunks then
           (case slice_from cursor (chunks ! ch) of
              Ok readable \<Rightarrow>
                (let read = min (length readable) blen
                 in if read = length readable
                    then read_chunks chunks (ch + 1) 0 (blen - read) (acc @ take read readable)
                    else read_chunks chunks ch (cursor + read) (blen - read)
                           (acc @ take read readable))
            | Err e \<Rightarrow> (ch, cursor, Err e)
            | Panic p \<Rightarrow> (ch, cursor, Panic p))
         else (ch, cursor, Ok acc))
      else (ch, cursor, Ok acc))"
  by pat_completeness auto
termination
  by (relation "measure (\<lambda>(chunks, ch, cursor, blen, acc). (length chunks - ch) + blen)") auto

declare read_chunks.simps [simp del]

definition read_chunk_read :: "chunk_read \<Rightarrow> nat \<Rightarrow> chunk_read \<times> bytes result" where
  "read_chunk_read s blen =
     (case cr_msg s of
        Single c bs \<Rightarrow>
          if blen = 0 then (s, Ok [])
          else
            (case slice_from (cr_cursor s) bs of
               Ok readable \<Rightarrow>
                 (let read = min (length readable) blen
                  in (s\<lparr>cr_cursor := cr_cursor s + read\<rparr>, Ok (take read readable)))
             | Err e \<Rightarrow> (s, Err e)
             | Panic p \<Rightarrow> (s, Panic p))
      | Chunked chunks \<Rightarrow>
          (case read_chunks chunks (cr_chunk s) (cr_cursor s) blen [] of
             (ch, cursor, r) \<Rightarrow> (s\<lparr>cr_chunk := ch, cr_cursor := cursor\<rparr>, r)))"

text \<open>What is left to read, and when the indices are inside the message.\<close>

definition chunks_left :: "bytes list \<Rightarrow> nat \<Rightarrow> nat \<Rightarrow> bytes" where
  "chunks_left chunks ch cursor = drop cursor (concat (drop ch chunks))"

definition chunks_inside :: "bytes list \<Rightarrow> nat \<Rightarrow> nat \<Rightarrow> bool" where
  "chunks_inside chunks ch cursor \<longleftrightarrow>
     (if ch < length chunks then cursor \<le> length (chunks ! ch) else cursor = 0)"

definition cr_remaining :: "chunk_read \<Rightarrow> bytes" where
  "cr_remaining s =
     (case cr_msg s of
        Single c bs \<Rightarrow> drop (cr_cursor s) bs
      | Chunked chunks \<Rightarrow> chunks_left chunks (cr_chunk s) (cr_cursor s))"

definition cr_inv :: "chunk_read \<Rightarrow> bool" where
  "cr_inv s \<longleftrightarrow>
     (case cr_msg s of
        Single c bs \<Rightarrow> cr_cursor s \<le> length bs
      | Chunked chunks \<Rightarrow> chunks_inside chunks (cr_chunk s) (cr_cursor s))"

lemma chunks_left_next:
  "ch < length chunks \<Longrightarrow> cursor \<le> length (chunks ! ch) \<Longrightarrow>
   chunks_left chunks ch cursor = drop cursor (chunks ! ch) @ chunks_left chunks (Suc ch) 0"
  by (simp add: chunks_left_def flip: Cons_nth_drop_Suc)

lemma read_chunks_correct:
  assumes "chunks_inside chunks ch cursor"
  shows "\<exists>ch' cursor'. read_chunks chunks ch cursor blen acc =
      (ch', cursor', Ok (acc @ take blen (chunks_left chunks ch cursor))) \<and>
    chunks_inside chunks ch' cursor' \<and>
    chunks_left chunks ch' cursor' = drop blen (chunks_left chunks ch cursor)"
  using assms
proof (induction chunks ch cursor blen acc rule: read_chunks.induct)
  case (1 chunks ch cursor blen acc)
  show ?case
  proof (cases "0 < blen \<and> ch < length chunks")
    case False
    with "1.prems" show ?thesis
      by (auto simp: read_chunks.simps [of chunks ch] chunks_left_def)
  next
    case True
    let ?r = "drop cursor (chunks ! ch)"
    from True "1.prems" have inside: "cursor \<le> length (chunks ! ch)"
      by (simp add: chunks_inside_def)
    then have slice: "slice_from cursor (chunks ! ch) = Ok ?r"
      by (simp add: slice_from_def)
    note left = chunks_left_next [OF conjunct2 [OF True] inside]
    show ?thesis
    proof (cases "min (length ?r) blen = length ?r")
      case whole: True
      have "chunks_inside chunks (ch + 1) 0"
        by (simp add: chunks_inside_def)
      from "1.IH"(1) [OF conjunct1 [OF True] conjunct2 [OF True] slice refl whole this]
      show ?thesis
        using True slice whole left
        by (auto simp: read_chunks.simps [of chunks ch cursor] Let_def)
    next
      case part: False
      then have short: "blen < length ?r" by (simp add: min_def split: if_splits)
      then have "read_chunks chunks ch cursor blen acc =
          (ch, cursor + blen, Ok (acc @ take blen ?r))"
        using True slice
        by (simp add: read_chunks.simps [of chunks ch cursor] read_chunks.simps [of _ _ _ 0])
      moreover have "chunks_inside chunks ch (cursor + blen)"
        using True short by (simp add: chunks_inside_def)
      moreover from this True have "chunks_left chunks ch (cursor + blen) =
          drop blen ?r @ chunks_left chunks (Suc ch) 0"
        by (simp add: chunks_left_next chunks_inside_def add.commute)
      ultimately show ?thesis
        using left short by auto
    qed
  qed
qed

text \<open>A read returns exactly the next bytes of the message, as many as the buffer holds.\<close>

lemma chunk_read_correct:
  assumes "cr_inv s"
  shows "\<exists>s'. read_chunk_read s n = (s', Ok (take n (cr_remaining s))) \<and> cr_inv s' \<and>
    cr_remaining s' = drop n (cr_remaining s)"
proof (cases "cr_msg s")
  case (Single c bs)
  with assms show ?thesis
    by (auto simp: read_chunk_read_def cr_inv_def cr_remaining_def slice_from_def Let_def min_def
        add.commute)
next
  case (Chunked chunks)
  with assms have "chunks_inside chunks (cr_chunk s) (cr_cursor s)"
    by (simp add: cr_inv_def)
  from read_chunks_correct [OF this, of n "[]"] Chunked show ?thesis
    by (auto simp: read_chunk_read_def cr_remaining_def cr_inv_def)
qed

interpretation cr: byte_reader read_chunk_read cr_remaining cr_inv
proof
  fix s n
  assume "cr_inv s"
  from chunk_read_correct [OF this, of n] show "\<exists>s' bs. read_chunk_read s n = (s', Ok bs) \<and> cr_inv s' \<and>
      cr_remaining s = bs @ cr_remaining s' \<and> length bs \<le> n \<and>
      (0 < n \<longrightarrow> cr_remaining s \<noteq> [] \<longrightarrow> bs \<noteq> [])"
    by (metis append_take_drop_id length_take min.cobounded2 not_gr_zero take_eq_Nil)
qed

section \<open>The reader of a message\<close>

text \<open>
  \<open>gzip::Decoder\<close> and \<open>zlib::Decoder\<close>: making one reads the compression header from the
  body, reading one yields decompressed bytes.
\<close>

record ('g, 'z) inflate =
  gzip_new :: "chunk_read \<Rightarrow> 'g result"
  gzip_read :: "'g \<Rightarrow> nat \<Rightarrow> 'g \<times> bytes result"
  zlib_new :: "chunk_read \<Rightarrow> 'z result"
  zlib_read :: "'z \<Rightarrow> nat \<Rightarrow> 'z \<times> bytes result"

datatype ('g, 'z) reader = Uncompressed chunk_read | Gzip_reader 'g | Zlib_reader 'z

definition into_reader :: "('g, 'z) inflate \<Rightarrow> message \<Rightarrow> ('g, 'z) reader result" where
  "into_reader lib m =
     (let c = message_compression m;
          body = \<lparr>cr_chunk = 0, cr_cursor = 0, cr_msg = m\<rparr>
      in case c of
           Some Gzip \<Rightarrow> outcome_bind (gzip_new lib body) (\<lambda>g. Ok (Gzip_reader g))
         | Some Zlib \<Rightarrow> outcome_bind (zlib_new lib body) (\<lambda>z. Ok (Zlib_reader z))
         | None \<Rightarrow> Ok (Uncompressed body))"

fun reader_read ::
  "('g, 'z) inflate \<Rightarrow> ('g, 'z) reader \<Rightarrow> nat \<Rightarrow> ('g, 'z) reader \<times> bytes result" where
  "reader_read lib (Uncompressed s) n = (case read_chunk_read s n of (s', r) \<Rightarrow> (Uncompressed s', r))"
| "reader_read lib (Gzip_reader g) n = (case gzip_read lib g n of (g', r) \<Rightarrow> (Gzip_reader g', r))"
| "reader_read lib (Zlib_reader z) n = (case zlib_read lib z n of (z', r) \<Rightarrow> (Zlib_reader z', r))"

text \<open>The bytes of a message before decompression.\<close>

fun message_body :: "message \<Rightarrow> bytes" where
  "message_body (Single c bs) = bs"
| "message_body (Chunked chunks) = concat chunks"

lemma cr_inv_start: "cr_inv \<lparr>cr_chunk = 0, cr_cursor = 0, cr_msg = m\<rparr>"
  by (cases m) (auto simp: cr_inv_def chunks_inside_def)

lemma cr_remaining_start:
  "cr_remaining \<lparr>cr_chunk = 0, cr_cursor = 0, cr_msg = m\<rparr> = message_body m"
  by (cases m) (auto simp: cr_remaining_def chunks_left_def)

text \<open>An uncompressed reader reads the bytes of its message, whatever the libraries do.\<close>

fun reader_remaining :: "('g, 'z) reader \<Rightarrow> bytes" where
  "reader_remaining (Uncompressed s) = cr_remaining s"
| "reader_remaining _ = []"

fun reader_inv :: "('g, 'z) reader \<Rightarrow> bool" where
  "reader_inv (Uncompressed s) = cr_inv s"
| "reader_inv _ = False"

interpretation rd: byte_reader "reader_read (lib :: ('g, 'z) inflate)" reader_remaining reader_inv
proof
  fix r :: "('g, 'z) reader" and n
  assume "reader_inv r"
  then obtain s where s: "r = Uncompressed s" "cr_inv s" by (cases r) auto
  from cr.read_ok [OF s(2), of n] obtain s' bs where
    "read_chunk_read s n = (s', Ok bs)" "cr_inv s'" "cr_remaining s = bs @ cr_remaining s'"
    "length bs \<le> n" "0 < n \<longrightarrow> cr_remaining s \<noteq> [] \<longrightarrow> bs \<noteq> []"
    by blast
  then show "\<exists>r' bs. reader_read lib r n = (r', Ok bs) \<and> reader_inv r' \<and>
      reader_remaining r = bs @ reader_remaining r' \<and> length bs \<le> n \<and>
      (0 < n \<longrightarrow> reader_remaining r \<noteq> [] \<longrightarrow> bs \<noteq> [])"
    by (intro exI [of _ "Uncompressed s'"] exI [of _ bs]) (simp add: s)
qed

section \<open>Slices\<close>

text \<open>\<open>MemRead\<close> for \<open>&[u8]\<close>: the bytes themselves, read through an \<open>io::Cursor\<close>.\<close>

record cursor =
  cur_data :: bytes
  cur_pos :: nat

definition slice_bytes :: "bytes \<Rightarrow> bytes option" where
  "slice_bytes bs = Some bs"

definition slice_into_reader :: "bytes \<Rightarrow> cursor result" where
  "slice_into_reader bs = Ok \<lparr>cur_data = bs, cur_pos = 0\<rparr>"

definition cursor_read :: "cursor \<Rightarrow> nat \<Rightarrow> cursor \<times> bytes result" where
  "cursor_read c n =
     (let bs = take n (drop (cur_pos c) (cur_data c))
      in (c\<lparr>cur_pos := cur_pos c + length bs\<rparr>, Ok bs))"

lemma drop_length_take: "drop (length (take n xs)) xs = drop n xs"
  by (simp add: min_def)

interpretation cur: byte_reader cursor_read "\<lambda>c. drop (cur_pos c) (cur_data c)" "\<lambda>_. True"
proof
  fix c :: cursor and n
  let ?left = "drop (cur_pos c) (cur_data c)"
  have "drop (cur_pos c + length (take n ?left)) (cur_data c) = drop n ?left"
    by (metis add.commute drop_drop drop_length_take)
  then show "\<exists>c' bs. cursor_read c n = (c', Ok bs) \<and> True \<and>
      ?left = bs @ drop (cur_pos c') (cur_data c') \<and> length bs \<le> n \<and>
      (0 < n \<longrightarrow> ?left \<noteq> [] \<longrightarrow> bs \<noteq> [])"
    by (auto simp: cursor_read_def Let_def simp del: drop_drop)
qed

section \<open>Properties\<close>

text \<open>
  C17: reading an uncompressed message ends and gives the message. Whatever the sizes of the
  buffers that are offered, as long as none is empty, reading to the end returns the bytes of
  the message, chunk after chunk: no byte is lost, repeated or out of order, and no index is
  out of range.
\<close>

theorem read_whole_message:
  assumes "message_compression m = None" and "\<forall>k. 0 < sz k"
  shows "\<exists>r. into_reader lib m = Ok r \<and>
    read_to_end (reader_read lib) sz r [] = Some (Ok (message_body m))"
  using assms
  by (simp add: into_reader_def rd.read_to_end_total cr_inv_start cr_remaining_start)

theorem read_whole_message_witness:
  "\<exists>r. into_reader \<lparr>gzip_new = (\<lambda>_. Ok ()), gzip_read = (\<lambda>g n. (g, Ok [])),
         zlib_new = (\<lambda>_. Ok ()), zlib_read = (\<lambda>z n. (z, Ok []))\<rparr> (Chunked [[1, 2], [], [3]]) = Ok r \<and>
     read_to_end (reader_read \<lparr>gzip_new = (\<lambda>_. Ok ()), gzip_read = (\<lambda>g n. (g, Ok [])),
         zlib_new = (\<lambda>_. Ok ()), zlib_read = (\<lambda>z n. (z, Ok []))\<rparr>) (\<lambda>_. 2) r [] = Some (Ok [1, 2, 3])"
  using read_whole_message [of "Chunked [[1, 2], [], [3]]" "\<lambda>_. 2"
      "\<lparr>gzip_new = (\<lambda>_. Ok ()), gzip_read = (\<lambda>g n. (g, Ok [])),
        zlib_new = (\<lambda>_. Ok ()), zlib_read = (\<lambda>z n. (z, Ok []))\<rparr>"]
  by (simp add: detect_def MAGIC_GZIP_def MAGIC_ZLIB_def peek_magic_bytes_def)

end
