(* ===== verification/Utf8.thy ===== *)
theory Utf8
  imports Gelf_Prelude
begin

text \<open>
  The standard library's UTF-8 checks, as \<open>read_to_string\<close> and \<open>String::from_utf8_lossy\<close>
  use them. A string of the program is the sequence of its UTF-8 bytes, a \<open>string\<close> here.
\<close>

definition chars :: "bytes \<Rightarrow> string" where
  "chars bs = map (\<lambda>b. char_of (unat b)) bs"

text \<open>The bytes of a text.\<close>

definition ascii :: "string \<Rightarrow> bytes" where
  "ascii s = map of_char s"

lemma unat_of_char: "unat (of_char c :: u8) = of_char c"
proof -
  have "(of_char c :: u8) = of_nat (of_char c)" by (simp add: of_nat_of_char)
  moreover have "unat (of_nat (of_char c) :: u8) = of_char c"
    by (simp only: unat_of_nat) simp
  ultimately show ?thesis by metis
qed

lemma chars_ascii: "chars (ascii s) = s"
  by (simp add: chars_def ascii_def comp_def unat_of_char)

text \<open>
  The sequence at the front of a byte string: whether it encodes a character, and how many
  bytes it takes. What does not encode one takes the longest prefix that could begin one.
\<close>

definition continuation :: "u8 \<Rightarrow> u8 \<Rightarrow> bytes \<Rightarrow> bool" where
  "continuation lo hi bs \<longleftrightarrow> (case bs of [] \<Rightarrow> False | b # _ \<Rightarrow> lo \<le> b \<and> b \<le> hi)"

definition second_range :: "u8 \<Rightarrow> u8 \<times> u8" where
  "second_range b =
     (if b = 0xE0 then (0xA0, 0xBF) else if b = 0xED then (0x80, 0x9F)
      else if b = 0xF0 then (0x90, 0xBF) else if b = 0xF4 then (0x80, 0x8F)
      else (0x80, 0xBF))"

definition sequence_length :: "u8 \<Rightarrow> nat" where
  "sequence_length b =
     (if b < 0x80 then 1
      else if 0xC2 \<le> b \<and> b \<le> 0xDF then 2
      else if 0xE0 \<le> b \<and> b \<le> 0xEF then 3
      else if 0xF0 \<le> b \<and> b \<le> 0xF4 then 4
      else 0)"

fun utf8_front :: "bytes \<Rightarrow> bool \<times> nat" where
  "utf8_front [] = (True, 0)"
| "utf8_front (b # bs) =
     (let n = sequence_length b
      in if n = 1 then (True, 1)
         else if n = 0 \<or> \<not> continuation (fst (second_range b)) (snd (second_range b)) bs
         then (False, 1)
         else if n = 2 then (True, 2)
         else if \<not> continuation 0x80 0xBF (drop 1 bs) then (False, 2)
         else if n = 3 then (True, 3)
         else if \<not> continuation 0x80 0xBF (drop 2 bs) then (False, 3)
         else (True, 4))"

lemma utf8_front_pos: "bs \<noteq> [] \<Longrightarrow> 0 < snd (utf8_front bs)"
  by (cases bs) (auto simp: Let_def)

function valid_utf8 :: "bytes \<Rightarrow> bool" where
  "valid_utf8 bs =
     (if bs = [] then True
      else if fst (utf8_front bs) then valid_utf8 (drop (snd (utf8_front bs)) bs)
      else False)"
  by pat_completeness auto
termination
  by (relation "measure length") (auto simp: utf8_front_pos)

text \<open>\<open>from_utf8_lossy\<close> puts the replacement character for every sequence that is not valid.\<close>

definition replacement :: bytes where
  "replacement = [0xEF, 0xBF, 0xBD]"

function utf8_lossy :: "bytes \<Rightarrow> bytes" where
  "utf8_lossy bs =
     (if bs = [] then []
      else
        (if fst (utf8_front bs) then take (snd (utf8_front bs)) bs else replacement)
        @ utf8_lossy (drop (snd (utf8_front bs)) bs))"
  by pat_completeness auto
termination
  by (relation "measure length") (auto simp: utf8_front_pos)

declare valid_utf8.simps [simp del] utf8_lossy.simps [simp del]

definition from_utf8_lossy :: "bytes \<Rightarrow> string" where
  "from_utf8_lossy bs = chars (utf8_lossy bs)"

lemma utf8_lossy_valid: "valid_utf8 bs \<Longrightarrow> utf8_lossy bs = bs"
proof (induction bs rule: valid_utf8.induct)
  case (1 bs)
  show ?case
  proof (cases "bs = []")
    case True
    then show ?thesis by (simp add: utf8_lossy.simps [of "[]"])
  next
    case False
    with "1.prems" have "fst (utf8_front bs)" "valid_utf8 (drop (snd (utf8_front bs)) bs)"
      by (auto simp: valid_utf8.simps [of bs] split: if_splits)
    with "1.IH" False show ?thesis
      by (simp add: utf8_lossy.simps [of bs])
  qed
qed

lemma from_utf8_lossy_valid: "valid_utf8 bs \<Longrightarrow> from_utf8_lossy bs = chars bs"
  by (simp add: from_utf8_lossy_def utf8_lossy_valid)

end
