(* ===== verification/Process.thy ===== *)
theory Process
  imports Clef Reader Utf8
begin

text \<open>
  \<open>process/gelf.rs\<close> and \<open>process/mod.rs\<close>: a GELF message, its mapping to an event, and
  the processor that reads a raw message, maps it and hands the event on. The parsers and
  printers of \<open>serde_json\<close>, the decimal and time libraries and the string cache are the
  fields of the record \<open>process_lib\<close>.
\<close>

section \<open>GELF messages\<close>

record ('s, 'm, 'd, 'n) gelf_message =
  gm_version :: "'s option"
  gm_host :: "'s option"
  gm_short_message :: 'm
  gm_full_message :: "'m option"
  gm_timestamp :: "'d option"
  gm_level :: "u8 option"
  gm_facility :: "'m option"
  gm_line :: "u32 option"
  gm_file :: "'m option"
  gm_additional :: "'n json option"

text \<open>The two instances that are parsed: borrowed from a slice, or read from a stream.\<close>

type_synonym ('d, 'n) slice_message = "(string str, string str, 'd, 'n) gelf_message"
type_synonym ('c, 'd, 'n) stream_message = "('c inlinable, string, 'd, 'n) gelf_message"

section \<open>The libraries\<close>

record ('c, 'd, 'n, 'r) process_lib =
  decimals :: "'d decimal"
  parse_rfc3339 :: rfc3339
  format_rfc3339 :: "system_time \<Rightarrow> string result"
  clef_from_str :: "string \<Rightarrow> 'n clef option"
  clef_to_string :: "(string \<times> 'n json) list \<Rightarrow> string option"
  number_from :: "u32 \<Rightarrow> 'n"
  cached_text :: "'c \<Rightarrow> string"
  gelf_from_slice :: "bytes \<Rightarrow> ('d, 'n) slice_message result"
  gelf_from_str :: "string \<Rightarrow> ('c, 'd, 'n) stream_message result"
  gelf_from_reader ::
    "('r \<Rightarrow> nat \<Rightarrow> 'r \<times> bytes result) \<Rightarrow> 'r \<Rightarrow> ('c, 'd, 'n) stream_message result"
  debug_text :: "string \<Rightarrow> string"
  buffer_size :: "nat \<Rightarrow> nat"

section \<open>Fields\<close>

fun find_first :: "'v str_map \<Rightarrow> string list \<Rightarrow> 'v option" where
  "find_first fs [] = None"
| "find_first fs (name # names) =
     (case sm_get fs name of Some v \<Rightarrow> Some v | None \<Rightarrow> find_first fs names)"

text \<open>\<open>override_value\<close>: the value that was there moves to the name with two underscores.\<close>

definition override_value :: "string \<Rightarrow> 'v \<Rightarrow> 'v str_map \<Rightarrow> 'v str_map" where
  "override_value name v fs =
     (let fs' = sm_insert (Borrowed name) v fs
      in case sm_get fs name of
           Some old \<Rightarrow> sm_insert (Owned (''__'' @ name)) old fs'
         | None \<Rightarrow> fs')"

definition add ::
  "string \<Rightarrow> 'n json \<Rightarrow> ('s, 'm, 'd, 'n) gelf_message \<Rightarrow> ('s, 'm, 'd, 'n) gelf_message \<times> bool" where
  "add k v msg =
     (case gm_additional msg of
        Some (JObject additional) \<Rightarrow>
          if bt_get additional k = None
          then (msg\<lparr>gm_additional := Some (JObject (bt_insert k v additional))\<rparr>, True)
          else (msg, False)
      | _ \<Rightarrow> (msg, False))"

definition strip_underscore :: "string \<Rightarrow> string" where
  "strip_underscore k = (if k \<noteq> [] \<and> hd k = CHR ''_'' then tl k else k)"

definition additional :: "('s, 'm, 'd, 'n) gelf_message \<Rightarrow> (string \<times> 'n json) list option" where
  "additional msg =
     (case gm_additional msg of
        Some (JObject fs) \<Rightarrow> Some (map (\<lambda>(k, v). (strip_underscore k, v)) fs)
      | _ \<Rightarrow> None)"

section \<open>Mapping a message to an event\<close>

definition syslog_level :: "u8 \<Rightarrow> string" where
  "syslog_level l =
     (if l = 0 then ''emerg'' else if l = 1 then ''alert'' else if l = 2 then ''crit''
      else if l = 3 then ''err'' else if l = 4 then ''warning'' else if l = 5 then ''notice''
      else if l = 6 then ''info'' else if l = 7 then ''debug'' else ''debug'')"

definition set_level :: "u8 option \<Rightarrow> 'n clef \<Rightarrow> 'n clef" where
  "set_level level c =
     (if cm_level c = None
      then c\<lparr>cm_level := Some
        (case map_option str_into_owned
            (Option.bind (find_first (cm_additional c) [''level'', ''lvl'', ''LVL''])
              try_from_value) of
           Some s \<Rightarrow> s
         | None \<Rightarrow> Borrowed (syslog_level (case level of Some l \<Rightarrow> l | None \<Rightarrow> 6)))\<rparr>
      else c)"

definition set_timestamp ::
  "bool \<Rightarrow> 'd decimal \<Rightarrow> rfc3339 \<Rightarrow> system_time \<Rightarrow> 'd option \<Rightarrow> 'n clef \<Rightarrow> 'n clef result" where
  "set_timestamp dbg dec parse now timestamp c =
     (if cm_timestamp c = None
      then
        (case Option.bind (Option.bind
            (find_first (cm_additional c) [''timestamp'', ''ts'', ''TIMESTAMP'', ''TS''])
            as_str) (try_parse_rfc3339 parse) of
           Some t \<Rightarrow> Ok (c\<lparr>cm_timestamp := Some t\<rparr>)
         | None \<Rightarrow>
             outcome_bind
               (case timestamp of None \<Rightarrow> Ok None | Some ts \<Rightarrow> from_decimal dbg dec ts)
               (\<lambda>t. Ok (c\<lparr>cm_timestamp :=
                  (case t of Some t \<Rightarrow> Some t | None \<Rightarrow> Some (timestamp_now now))\<rparr>)))
      else Ok c)"

definition set_exception :: "string \<Rightarrow> string option \<Rightarrow> 'n clef \<Rightarrow> 'n clef" where
  "set_exception short_message full_message c =
     (if cm_exception c = None
      then c\<lparr>cm_exception :=
        (case full_message of
           None \<Rightarrow> None
         | Some full \<Rightarrow> if full \<noteq> short_message then Some (Borrowed full) else None)\<rparr>
      else c)"

definition set_message :: "'n clef \<Rightarrow> 'n clef" where
  "set_message c =
     (if cm_message c = None \<and> cm_message_template c = None
      then c\<lparr>cm_message := map_option str_into_owned
        (Option.bind (find_first (cm_additional c) [''message'', ''msg'', ''MSG''])
          try_from_value)\<rparr>
      else c)"

definition override_all :: "(string \<times> 'v) list \<Rightarrow> 'v str_map \<Rightarrow> 'v str_map" where
  "override_all kvs fs = fold (\<lambda>(k, v). override_value k v) kvs fs"

definition override_opt :: "string \<Rightarrow> 'v option \<Rightarrow> 'v str_map \<Rightarrow> 'v str_map" where
  "override_opt name v fs = (case v of None \<Rightarrow> fs | Some v \<Rightarrow> override_value name v fs)"

definition to_clef ::
  "bool \<Rightarrow> ('c, 'd, 'n, 'r) process_lib \<Rightarrow> system_time \<Rightarrow> ('s \<Rightarrow> string) \<Rightarrow> ('m \<Rightarrow> string) \<Rightarrow>
   ('s, 'm, 'd, 'n) gelf_message \<Rightarrow> 'n clef result" where
  "to_clef dbg lib now s_ref m_ref msg =
     (let short_message = m_ref (gm_short_message msg);
          c = (case maybe_from_json (clef_from_str lib) short_message of
                 Some c \<Rightarrow> c | None \<Rightarrow> from_message short_message);
          c = set_level (gm_level msg) c
      in outcome_bind
           (set_timestamp dbg (decimals lib) (parse_rfc3339 lib) now (gm_timestamp msg) c) (\<lambda>c.
         let c = set_exception short_message (map_option m_ref (gm_full_message msg)) c;
             c = set_message c;
             fs = (case additional msg of
                         Some kvs \<Rightarrow> override_all kvs (cm_additional c)
                       | None \<Rightarrow> cm_additional c);
             fs = override_opt ''host'' (map_option (JString \<circ> s_ref) (gm_host msg)) fs;
             fs = override_opt ''facility''
               (map_option (JString \<circ> m_ref) (gm_facility msg)) fs;
             fs = override_opt ''file'' (map_option (JString \<circ> m_ref) (gm_file msg)) fs;
             fs = override_opt ''line''
               (map_option (JNumber \<circ> number_from lib) (gm_line msg)) fs
         in Ok (c\<lparr>cm_additional := fs\<rparr>)))"

section \<open>The processor\<close>

record process_config =
  include_raw_payload :: bool

record process =
  raw_payload :: bool

definition default_process_config :: process_config where
  "default_process_config = \<lparr>include_raw_payload = False\<rparr>"

definition process_new :: "process_config \<Rightarrow> process" where
  "process_new cfg = \<lparr>raw_payload = include_raw_payload cfg\<rparr>"

text \<open>The trait \<open>MemRead\<close> of \<open>io.rs\<close>: its two operations and those of its reader.\<close>

record ('b, 'r) mem_read =
  mr_bytes :: "'b \<Rightarrow> bytes option"
  mr_into_reader :: "'b \<Rightarrow> 'r result"
  mr_read :: "'r \<Rightarrow> nat \<Rightarrow> 'r \<times> bytes result"

text \<open>\<open>Read::read_to_string\<close> into an empty string; \<open>None\<close> when the reader never ends.\<close>

definition read_to_string ::
  "('r \<Rightarrow> nat \<Rightarrow> 'r \<times> bytes result) \<Rightarrow> (nat \<Rightarrow> nat) \<Rightarrow> 'r \<Rightarrow> string result option" where
  "read_to_string rd sz r =
     map_option (\<lambda>x. outcome_bind x (\<lambda>bs.
       if valid_utf8 bs then Ok (chars bs)
       else Err (Io OtherKind ''stream did not contain valid UTF-8''))) (read_to_end rd sz r [])"

definition parse_context :: "('c, 'd, 'n, 'r) process_lib \<Rightarrow> string \<Rightarrow> 'a result \<Rightarrow> 'a result" where
  "parse_context lib payload r =
     (case r of
        Err e \<Rightarrow> Err (Context (''could not parse GELF from: '' @ debug_text lib payload) e)
      | r \<Rightarrow> r)"

definition parse_slice ::
  "('c, 'd, 'n, 'r) process_lib \<Rightarrow> bool \<Rightarrow> bytes \<Rightarrow> ('d, 'n) slice_message result" where
  "parse_slice lib raw bs =
     (if raw
      then outcome_bind (parse_context lib (from_utf8_lossy bs) (gelf_from_slice lib bs)) (\<lambda>value.
        Ok (fst (add ''raw_payload'' (JString (from_utf8_lossy bs)) value)))
      else gelf_from_slice lib bs)"

definition parse_stream ::
  "('c, 'd, 'n, 'r) process_lib \<Rightarrow> bool \<Rightarrow> ('r \<Rightarrow> nat \<Rightarrow> 'r \<times> bytes result) \<Rightarrow> 'r result \<Rightarrow>
   ('c, 'd, 'n) stream_message result option" where
  "parse_stream lib raw rd reader =
     (case reader of
        Err e \<Rightarrow> Some (Err e)
      | Panic p \<Rightarrow> Some (Panic p)
      | Ok r \<Rightarrow>
          if raw
          then map_option (\<lambda>x. outcome_bind x (\<lambda>payload.
            outcome_bind (parse_context lib payload (gelf_from_str lib payload)) (\<lambda>value.
              Ok (fst (add ''raw_payload'' (JString payload) value)))))
            (read_to_string rd (buffer_size lib) r)
          else Some (gelf_from_reader lib rd r))"

text \<open>
  \<open>with_clef\<close>: the event goes to \<open>with\<close>, which may change the state \<open>w\<close>.
\<close>

definition with_clef ::
  "bool \<Rightarrow> ('c, 'd, 'n, 'r) process_lib \<Rightarrow> system_time \<Rightarrow> ('b, 'r) mem_read \<Rightarrow> process \<Rightarrow> 'b \<Rightarrow>
   ('n clef \<Rightarrow> 'w \<Rightarrow> 'w \<times> unit result) \<Rightarrow> diag \<Rightarrow> 'w \<Rightarrow> (diag \<times> 'w \<times> unit result) option" where
  "with_clef dbg lib now mr p msg with_event d w =
     (let d' = increment (Process M_msg) d;
          finish = (\<lambda>r. case r of
              Ok c \<Rightarrow> (case with_event c w of (w', x) \<Rightarrow> (d', w', x))
            | Err e \<Rightarrow> (d', w, Err e)
            | Panic q \<Rightarrow> (d', w, Panic q))
      in case mr_bytes mr msg of
           Some bs \<Rightarrow>
             Some (finish (outcome_bind (parse_slice lib (raw_payload p) bs)
               (to_clef dbg lib now str_text str_text)))
         | None \<Rightarrow>
             map_option (\<lambda>r. finish (outcome_bind r
                 (to_clef dbg lib now (inlinable_as_ref (cached_text lib)) (\<lambda>s. s))))
               (parse_stream lib (raw_payload p) (mr_read mr) (mr_into_reader mr msg)))"

text \<open>
  \<open>read_as_clef\<close>: a line on standard output per event. An event that cannot be written is
  dropped; a panic while it is written goes on.
\<close>

definition print_clef ::
  "('c, 'd, 'n, 'r) process_lib \<Rightarrow> 'n clef \<Rightarrow> string list \<Rightarrow> string list \<times> unit result" where
  "print_clef lib c out =
     (case clef_members (format_rfc3339 lib) c of
        Ok ms \<Rightarrow>
          (case clef_to_string lib ms of
             Some line \<Rightarrow> (out @ [line], Ok ())
           | None \<Rightarrow> (out, Ok ()))
      | Err _ \<Rightarrow> (out, Ok ())
      | Panic p \<Rightarrow> (out, Panic p))"

definition read_as_clef ::
  "bool \<Rightarrow> ('c, 'd, 'n, 'r) process_lib \<Rightarrow> system_time \<Rightarrow> ('b, 'r) mem_read \<Rightarrow> process \<Rightarrow> 'b \<Rightarrow>
   diag \<Rightarrow> string list \<Rightarrow> (diag \<times> string list \<times> unit result) option" where
  "read_as_clef dbg lib now mr p msg d out =
     with_clef dbg lib now mr p msg (print_clef lib) d out"

end
