(* ===== verification/Config.thy ===== *)
theory Config
  imports Server Process
begin

text \<open>
  \<open>config.rs\<close>: the configuration of the program, read from environment variables. The
  environment is a function from names to what \<open>env::var\<close> says of them.
\<close>

datatype env_var = Var string | Not_present | Not_unicode

type_synonym environment = "string \<Rightarrow> env_var"

record sqelf_config =
  cfg_receive :: receive_config
  cfg_process :: process_config
  cfg_server :: server_config
  cfg_diagnostics :: diag_config

definition default_config :: sqelf_config where
  "default_config =
     \<lparr>cfg_receive = default_receive_config, cfg_process = default_process_config,
      cfg_server = default_server_config, cfg_diagnostics = default_diag_config\<rparr>"

definition not_unicode :: "'a result" where
  "not_unicode = Err (VarNotUnicode ''environment variable was not valid unicode'')"

definition is_seq_app :: "environment \<Rightarrow> bool" where
  "is_seq_app env = (case env ''SEQ_APP_ID'' of Var _ \<Rightarrow> True | _ \<Rightarrow> False)"

definition is_present :: "environment \<Rightarrow> string \<Rightarrow> bool result" where
  "is_present env name =
     (case env name of
        Var v \<Rightarrow> Ok (v \<noteq> [])
      | Not_present \<Rightarrow> Ok False
      | Not_unicode \<Rightarrow> not_unicode)"

definition is_truthy :: "environment \<Rightarrow> string \<Rightarrow> bool result" where
  "is_truthy env name =
     (case env name of
        Var v \<Rightarrow> Ok (v = ''True'' \<or> v = ''true'')
      | Not_present \<Rightarrow> Ok False
      | Not_unicode \<Rightarrow> not_unicode)"

text \<open>\<open>read_environment\<close>: the new value of \<open>into\<close>.\<close>

definition read_environment ::
  "(string \<Rightarrow> 'a result) \<Rightarrow> environment \<Rightarrow> 'a \<Rightarrow> string \<Rightarrow> 'a result" where
  "read_environment from_str env into name =
     (case env name of
        Var v \<Rightarrow> if v = '''' then Ok into else from_str v
      | Not_present \<Rightarrow> Ok into
      | Not_unicode \<Rightarrow> not_unicode)"

text \<open>The certificate, when the variable that names it is there and not empty.\<close>

definition certificate_from_env ::
  "environment \<Rightarrow> string \<Rightarrow> string \<Rightarrow> server_config \<Rightarrow> server_config result" where
  "certificate_from_env env path_var key_var cfg =
     outcome_bind (is_present env path_var) (\<lambda>present.
       if \<not> present then Ok cfg
       else
         outcome_bind (read_environment Ok env '''' path_var) (\<lambda>path.
         outcome_bind (read_environment Ok env '''' key_var) (\<lambda>key.
           Ok (cfg\<lparr>server_certificate :=
             Some \<lparr>cert_path = path, private_key_path = (if key = '''' then path else key)\<rparr>\<rparr>))))"

definition from_env :: "environment \<Rightarrow> sqelf_config result" where
  "from_env env =
     (let config = default_config;
          seq = is_seq_app env;
          bind_address_var = (if seq then ''SEQ_APP_SETTING_GELFADDRESS'' else ''GELF_ADDRESS'');
          enable_diagnostics =
            (if seq then ''SEQ_APP_SETTING_ENABLEDIAGNOSTICS'' else ''GELF_ENABLE_DIAGNOSTICS'');
          certificate_path_var =
            (if seq then ''SEQ_APP_SETTING_CERTIFICATEPATH'' else ''GELF_CERTIFICATE_PATH'');
          certificate_private_key_path_var =
            (if seq then ''SEQ_APP_SETTING_CERTIFICATEPRIVATEKEYPATH''
             else ''GELF_CERTIFICATE_PRIVATE_KEY_PATH'')
      in outcome_bind
           (read_environment bind_from_str env (server_bind (cfg_server config)) bind_address_var) (\<lambda>b.
         let config = config\<lparr>cfg_server := (cfg_server config)\<lparr>server_bind := b\<rparr>\<rparr>
         in outcome_bind (is_truthy env enable_diagnostics) (\<lambda>enable.
         let config =
               (if enable
                then config
                  \<lparr>cfg_diagnostics := (cfg_diagnostics config)\<lparr>min_level := Debug\<rparr>,
                   cfg_process := (cfg_process config)\<lparr>include_raw_payload := True\<rparr>\<rparr>
                else config)
         in outcome_bind (certificate_from_env env certificate_path_var
              certificate_private_key_path_var (cfg_server config)) (\<lambda>s.
            Ok (config\<lparr>cfg_server := s\<rparr>)))))"

section \<open>What the configuration depends on\<close>

definition var_names :: "bool \<Rightarrow> string \<times> string \<times> string \<times> string" where
  "var_names seq =
     (if seq then (''SEQ_APP_SETTING_GELFADDRESS'', ''SEQ_APP_SETTING_ENABLEDIAGNOSTICS'',
        ''SEQ_APP_SETTING_CERTIFICATEPATH'', ''SEQ_APP_SETTING_CERTIFICATEPRIVATEKEYPATH'')
      else (''GELF_ADDRESS'', ''GELF_ENABLE_DIAGNOSTICS'', ''GELF_CERTIFICATE_PATH'',
        ''GELF_CERTIFICATE_PRIVATE_KEY_PATH''))"

definition filled :: "env_var \<Rightarrow> bool" where
  "filled v \<longleftrightarrow> (\<exists>s. v = Var s \<and> s \<noteq> '''')"

definition text_of :: "env_var \<Rightarrow> string" where
  "text_of v = (case v of Var s \<Rightarrow> s | _ \<Rightarrow> '''')"

lemma bind_from_str_Ok: "\<exists>b. bind_from_str s = Ok b"
  by (simp add: bind_from_str_def)

lemma read_environment_eq:
  "read_environment f env into n =
     (if env n = Not_unicode then not_unicode
      else if filled (env n) then f (text_of (env n)) else Ok into)"
  by (auto simp: read_environment_def filled_def text_of_def split: env_var.splits)

lemma is_present_eq:
  "is_present env n = (if env n = Not_unicode then not_unicode else Ok (filled (env n)))"
  by (auto simp: is_present_def filled_def split: env_var.splits)

lemma is_truthy_eq:
  "is_truthy env n =
     (if env n = Not_unicode then not_unicode else Ok (text_of (env n) \<in> {''True'', ''true''}))"
  by (auto simp: is_truthy_def text_of_def split: env_var.splits)

lemma not_unicode_bind [simp]: "outcome_bind not_unicode f = not_unicode"
  by (simp add: not_unicode_def)

lemma filled_simps: "filled v \<Longrightarrow> v \<noteq> Not_unicode" "filled v \<Longrightarrow> text_of v \<noteq> ''''"
  by (auto simp: filled_def text_of_def)

lemma certificate_from_env_eq:
  "certificate_from_env env cert key cfg =
     (if env cert = Not_unicode \<or> filled (env cert) \<and> env key = Not_unicode then not_unicode
      else if filled (env cert)
      then Ok (cfg\<lparr>server_certificate := Some \<lparr>cert_path = text_of (env cert),
        private_key_path =
          (if filled (env key) then text_of (env key) else text_of (env cert))\<rparr>\<rparr>)
      else Ok cfg)"
  by (auto simp: certificate_from_env_def is_present_eq read_environment_eq filled_simps)

text \<open>The configuration in terms of its four variables.\<close>

lemma from_env_cases:
  assumes names: "var_names (is_seq_app env) = (addr, diag_var, cert, key)"
  shows "from_env env =
    (if env addr = Not_unicode \<or> env diag_var = Not_unicode \<or> env cert = Not_unicode
        \<or> filled (env cert) \<and> env key = Not_unicode
     then not_unicode
     else
       let debug = text_of (env diag_var) \<in> {''True'', ''true''};
           b = (if filled (env addr)
                then (case bind_from_str (text_of (env addr)) of Ok b \<Rightarrow> b)
                else server_bind default_server_config)
       in Ok \<lparr>cfg_receive = default_receive_config,
              cfg_process = \<lparr>include_raw_payload = debug\<rparr>,
              cfg_server = default_server_config\<lparr>server_bind := b,
                server_certificate :=
                  (if filled (env cert)
                   then Some \<lparr>cert_path = text_of (env cert),
                     private_key_path =
                       (if filled (env key) then text_of (env key) else text_of (env cert))\<rparr>
                   else None)\<rparr>,
              cfg_diagnostics = default_diag_config\<lparr>min_level := if debug then Debug else Error\<rparr>\<rparr>)"
proof -
  let ?bind = "bind_from_str (text_of (env addr))"
  obtain b where b: "?bind = Ok b" using bind_from_str_Ok by blast
  have vars: "addr = (if is_seq_app env then ''SEQ_APP_SETTING_GELFADDRESS'' else ''GELF_ADDRESS'')"
    "diag_var = (if is_seq_app env then ''SEQ_APP_SETTING_ENABLEDIAGNOSTICS''
       else ''GELF_ENABLE_DIAGNOSTICS'')"
    "cert = (if is_seq_app env then ''SEQ_APP_SETTING_CERTIFICATEPATH'' else ''GELF_CERTIFICATE_PATH'')"
    "key = (if is_seq_app env then ''SEQ_APP_SETTING_CERTIFICATEPRIVATEKEYPATH''
       else ''GELF_CERTIFICATE_PRIVATE_KEY_PATH'')"
    using names by (auto simp: var_names_def split: if_splits)
  have step: "from_env env =
      outcome_bind (read_environment bind_from_str env (server_bind default_server_config) addr) (\<lambda>b.
      outcome_bind (is_truthy env diag_var) (\<lambda>enable.
      outcome_bind (certificate_from_env env cert key (default_server_config\<lparr>server_bind := b\<rparr>)) (\<lambda>s.
        Ok \<lparr>cfg_receive = default_receive_config, cfg_process = \<lparr>include_raw_payload = enable\<rparr>,
            cfg_server = s,
            cfg_diagnostics = default_diag_config\<lparr>min_level := if enable then Debug else Error\<rparr>\<rparr>)))"
    unfolding from_env_def Let_def vars
    by (intro arg_cong2 [of _ _ _ _ outcome_bind] refl ext)
      (simp_all add: default_config_def default_process_config_def default_diag_config_def)
  show ?thesis
    unfolding step read_environment_eq is_truthy_eq certificate_from_env_eq
    using b by (auto simp: Let_def default_server_config_def)
qed

section \<open>Properties\<close>

text \<open>
  C29: when the configuration can be read. Reading it fails exactly when one of the variables
  it asks for is not Unicode; the variable of the private key is asked for only when there is
  a certificate. An address never makes it fail.
\<close>

theorem from_env_fails_iff:
  assumes "var_names (is_seq_app env) = (addr, diag_var, cert, key)"
  shows "(\<exists>e. from_env env = Err e) \<longleftrightarrow>
      env addr = Not_unicode \<or> env diag_var = Not_unicode \<or> env cert = Not_unicode \<or>
      filled (env cert) \<and> env key = Not_unicode"
  unfolding from_env_cases [OF assms] by (simp add: not_unicode_def Let_def)

theorem from_env_fails_iff_witness:
  "\<exists>e. from_env ((\<lambda>_. Not_present)(''GELF_CERTIFICATE_PATH'' := Var ''c'',
     ''GELF_CERTIFICATE_PRIVATE_KEY_PATH'' := Not_unicode)) = Err e"
  using from_env_fails_iff [of "(\<lambda>_. Not_present)(''GELF_CERTIFICATE_PATH'' := Var ''c'',
     ''GELF_CERTIFICATE_PRIVATE_KEY_PATH'' := Not_unicode)"]
  by (simp add: var_names_def is_seq_app_def filled_def)

text \<open>
  C28: what is configured. With nothing set the configuration is the default one. Debug
  diagnostics and raw payloads are switched on together, by one of the two truthy texts. A
  certificate is configured exactly when its path is set, and then its path and the path of
  its key are not empty, the key being looked for in the certificate's own file by default.
\<close>

theorem from_env_config:
  assumes "var_names (is_seq_app env) = (addr, diag_var, cert, key)" and "from_env env = Ok cfg"
  shows "(env addr = Not_present \<and> env diag_var = Not_present \<and> env cert = Not_present \<longrightarrow>
      cfg = default_config) \<and>
    (min_level (cfg_diagnostics cfg) = Debug \<longleftrightarrow> env diag_var \<in> {Var ''True'', Var ''true''}) \<and>
    include_raw_payload (cfg_process cfg) = (min_level (cfg_diagnostics cfg) = Debug) \<and>
    (server_certificate (cfg_server cfg) \<noteq> None \<longleftrightarrow> filled (env cert)) \<and>
    (\<forall>c. server_certificate (cfg_server cfg) = Some c \<longrightarrow>
      cert_path c \<noteq> '''' \<and> private_key_path c \<noteq> '''' \<and>
      (\<not> filled (env key) \<longrightarrow> private_key_path c = cert_path c))"
proof -
  have truthy: "text_of v \<in> {''True'', ''true''} \<longleftrightarrow> v \<in> {Var ''True'', Var ''true''}" for v
    by (cases v) (auto simp: text_of_def)
  show ?thesis
    using assms(2) unfolding from_env_cases [OF assms(1)] truthy
    by (auto simp: Let_def not_unicode_def filled_simps default_config_def filled_def
        default_server_config_def default_diag_config_def default_process_config_def
        split: if_splits)
qed

theorem from_env_config_witness:
  "\<exists>cfg. from_env ((\<lambda>_. Not_present)(''GELF_CERTIFICATE_PATH'' := Var ''c'')) = Ok cfg \<and>
     (\<forall>c. server_certificate (cfg_server cfg) = Some c \<longrightarrow> private_key_path c = cert_path c)"
proof -
  let ?env = "(\<lambda>_. Not_present)(''GELF_CERTIFICATE_PATH'' := Var ''c'')"
  have names: "var_names (is_seq_app ?env) = (''GELF_ADDRESS'', ''GELF_ENABLE_DIAGNOSTICS'',
      ''GELF_CERTIFICATE_PATH'', ''GELF_CERTIFICATE_PRIVATE_KEY_PATH'')"
    by (simp add: var_names_def is_seq_app_def)
  obtain cfg where c: "from_env ?env = Ok cfg"
    by (simp add: from_env_cases [OF names] Let_def)
  show ?thesis
    using c from_env_config [OF names c] by (auto simp: filled_def)
qed

end
