(* ===== verification/Process_Fields.thy ===== *)
theory Process_Fields
  imports Process
begin

text \<open>
  The members of the event that a GELF message is mapped to. All writes to the additional
  members, of the payload and then of the envelope, are one sequence of \<open>override_value\<close>;
  what ends under a name, and under the name with two underscores, is read off the values
  written to it.
\<close>

section \<open>Writes to the additional members\<close>

lemma sm_get_override [map_simps]:
  "sm_get (override_value n v m) k =
     (if k = n then Some v
      else if k = ''__'' @ n \<and> sm_get m n \<noteq> None then sm_get m n
      else sm_get m k)"
  by (auto simp: override_value_def Let_def map_simps split: option.splits)

lemma sm_wf_override [wf_intros]: "sm_wf m \<Longrightarrow> sm_wf (override_value n v m)"
  by (auto simp: override_value_def Let_def sm_wf_insert split: option.splits)

lemma sm_wf_override_all [wf_intros]: "sm_wf m \<Longrightarrow> sm_wf (override_all ws m)"
  by (induction ws arbitrary: m) (auto simp: override_all_def sm_wf_override)

text \<open>The values that a sequence of writes gives to a name, in order.\<close>

definition written :: "string \<Rightarrow> (string \<times> 'v) list \<Rightarrow> 'v list" where
  "written k ws = map snd (filter (\<lambda>(k', _). k' = k) ws)"

definition option_list :: "'v option \<Rightarrow> 'v list" where
  "option_list x = (case x of None \<Rightarrow> [] | Some v \<Rightarrow> [v])"

text \<open>A name that a displaced value can be moved to.\<close>

definition dunder :: "string \<Rightarrow> bool" where
  "dunder k \<longleftrightarrow> take 2 k = ''__''"

lemma not_dunder: "\<not> dunder k \<Longrightarrow> k \<noteq> ''__'' @ k'"
  by (auto simp: dunder_def)

lemma override_all_Cons:
  "override_all ((k, v) # ws) m = override_all ws (override_value k v m)"
  by (simp add: override_all_def)

lemma written_Cons:
  "written k ((k', v) # ws) = (if k' = k then v # written k ws else written k ws)"
  by (simp add: written_def)

lemma written_append: "written k (ws @ ws') = written k ws @ written k ws'"
  by (simp add: written_def)

lemma written_Nil_iff: "written k ws = [] \<longleftrightarrow> k \<notin> fst ` set ws"
  by (induction ws) (auto simp: written_def)

text \<open>The last value written to a name is the one it has.\<close>

lemma get_override_all:
  "\<not> dunder k \<Longrightarrow>
   sm_get (override_all ws m) k =
     (let vs = option_list (sm_get m k) @ written k ws in if vs = [] then None else Some (last vs))"
proof (induction ws arbitrary: m)
  case Nil
  then show ?case
    by (auto simp: override_all_def written_def option_list_def Let_def split: option.splits)
next
  case (Cons w ws)
  obtain k' v where w: "w = (k', v)" by fastforce
  from Cons.IH [OF Cons.prems, of "override_value k' v m"] not_dunder [OF Cons.prems]
  show ?case
    by (auto simp: w override_all_Cons written_Cons sm_get_override option_list_def Let_def
        split: option.splits)
qed

text \<open>The value before it is the one that is moved aside.\<close>

lemma get_override_all_displaced:
  "\<not> dunder k \<Longrightarrow> ''__'' @ k \<notin> fst ` set ws \<Longrightarrow>
   sm_get (override_all ws m) (''__'' @ k) =
     (let vs = option_list (sm_get m k) @ written k ws
      in if 2 \<le> length vs \<and> written k ws \<noteq> [] then Some (last (butlast vs))
         else sm_get m (''__'' @ k))"
proof (induction ws arbitrary: m)
  case Nil
  then show ?case by (simp add: override_all_def written_def Let_def)
next
  case (Cons w ws)
  obtain k' v where w: "w = (k', v)" by fastforce
  have "''__'' @ k \<noteq> k'" "''__'' @ k \<notin> fst ` set ws"
    using Cons.prems(2) by (auto simp: w)
  with Cons.IH [of "override_value k' v m"] Cons.prems(1) not_dunder [OF Cons.prems(1)]
  show ?case
    by (cases "sm_get m k"; cases "written k ws")
      (auto simp: w override_all_Cons written_Cons sm_get_override option_list_def Let_def)
qed

section \<open>The mapping in one equation\<close>

text \<open>What the envelope of a message writes.\<close>

definition envelope ::
  "('c, 'd, 'n, 'r) process_lib \<Rightarrow> ('s \<Rightarrow> string) \<Rightarrow> ('m \<Rightarrow> string) \<Rightarrow>
   ('s, 'm, 'd, 'n) gelf_message \<Rightarrow> (string \<times> 'n json) list" where
  "envelope lib s_ref m_ref msg =
     map (\<lambda>h. (''host'', JString (s_ref h))) (option_list (gm_host msg))
     @ map (\<lambda>f. (''facility'', JString (m_ref f))) (option_list (gm_facility msg))
     @ map (\<lambda>f. (''file'', JString (m_ref f))) (option_list (gm_file msg))
     @ map (\<lambda>l. (''line'', JNumber (number_from lib l))) (option_list (gm_line msg))"

definition payload :: "('s, 'm, 'd, 'n) gelf_message \<Rightarrow> (string \<times> 'n json) list" where
  "payload msg = (case additional msg of None \<Rightarrow> [] | Some kvs \<Rightarrow> kvs)"

definition embedded ::
  "('c, 'd, 'n, 'r) process_lib \<Rightarrow> ('m \<Rightarrow> string) \<Rightarrow> ('s, 'm, 'd, 'n) gelf_message \<Rightarrow> 'n clef" where
  "embedded lib m_ref msg =
     (case maybe_from_json (clef_from_str lib) (m_ref (gm_short_message msg)) of
        Some c \<Rightarrow> c | None \<Rightarrow> from_message (m_ref (gm_short_message msg)))"

lemma set_frame [simp]:
  "cm_additional (set_level l c) = cm_additional c"
  "cm_additional (set_exception s f c) = cm_additional c"
  "cm_additional (set_message c) = cm_additional c"
  "cm_timestamp (set_level l c) = cm_timestamp c"
  "cm_timestamp (set_exception s f c) = cm_timestamp c"
  "cm_timestamp (set_message c) = cm_timestamp c"
  "cm_level (set_exception s f c) = cm_level c"
  "cm_level (set_message c) = cm_level c"
  by (simp_all add: set_level_def set_exception_def set_message_def)

lemma set_timestamp_OkD:
  assumes "set_timestamp dbg dec parse now ts c = Ok c'"
  shows "\<exists>t. c' = c\<lparr>cm_timestamp := Some t\<rparr>"
proof (cases "cm_timestamp c")
  case (Some t)
  with assms show ?thesis
    by (intro exI [of _ t]) (auto simp: set_timestamp_def)
next
  case None
  with assms show ?thesis
    by (auto simp: set_timestamp_def outcome_bind_Ok_iff split: option.splits)
qed

lemma override_opts:
  "override_opt n x m = override_all (map (\<lambda>v. (n, v)) (option_list x)) m"
  by (auto simp: override_opt_def override_all_def option_list_def split: option.splits)

lemma override_all_append: "override_all (ws @ ws') m = override_all ws' (override_all ws m)"
  by (simp add: override_all_def)

lemma option_list_map: "option_list (map_option f x) = map f (option_list x)"
  by (cases x) (auto simp: option_list_def)

lemma to_clef_unfold:
  "to_clef dbg lib now s_ref m_ref msg =
     outcome_bind (set_timestamp dbg (decimals lib) (parse_rfc3339 lib) now (gm_timestamp msg)
         (set_level (gm_level msg) (embedded lib m_ref msg))) (\<lambda>c.
       Ok ((set_message (set_exception (m_ref (gm_short_message msg))
             (map_option m_ref (gm_full_message msg)) c))
           \<lparr>cm_additional :=
              override_all (payload msg @ envelope lib s_ref m_ref msg) (cm_additional c)\<rparr>))"
proof -
  have "(case additional msg of Some kvs \<Rightarrow> override_all kvs m | None \<Rightarrow> m) =
      override_all (payload msg) m" for m
    by (auto simp: payload_def override_all_def split: option.splits)
  then show ?thesis
    by (simp add: to_clef_def Let_def embedded_def override_opts override_all_append
        envelope_def option_list_map comp_def)
qed

end
