(* ===== verification/Process_Props.thy ===== *)
theory Process_Props
  imports Process_Fields
begin

text \<open>
  The properties of the mapping from GELF to events: which of several values for a name is
  kept, what a plain and an embedded message become, that the mapping is total, and when
  the members of the printed object are distinct.
\<close>

section \<open>Facts on the mapping\<close>

lemma to_clef_OkD:
  assumes "to_clef dbg lib now s_ref m_ref msg = Ok c"
  obtains t where
    "set_timestamp dbg (decimals lib) (parse_rfc3339 lib) now (gm_timestamp msg)
       (set_level (gm_level msg) (embedded lib m_ref msg)) =
     Ok ((set_level (gm_level msg) (embedded lib m_ref msg))\<lparr>cm_timestamp := Some t\<rparr>)"
    and "c = (set_message (set_exception (m_ref (gm_short_message msg))
          (map_option m_ref (gm_full_message msg))
          ((set_level (gm_level msg) (embedded lib m_ref msg))\<lparr>cm_timestamp := Some t\<rparr>)))
        \<lparr>cm_additional := override_all (payload msg @ envelope lib s_ref m_ref msg)
           (cm_additional (embedded lib m_ref msg))\<rparr>"
proof -
  obtain x where x: "set_timestamp dbg (decimals lib) (parse_rfc3339 lib) now (gm_timestamp msg)
      (set_level (gm_level msg) (embedded lib m_ref msg)) = Ok x"
    and c: "c = (set_message (set_exception (m_ref (gm_short_message msg))
          (map_option m_ref (gm_full_message msg)) x))
        \<lparr>cm_additional := override_all (payload msg @ envelope lib s_ref m_ref msg) (cm_additional x)\<rparr>"
    using assms by (auto simp: to_clef_unfold outcome_bind_Ok_iff)
  from set_timestamp_OkD [OF x] obtain t where
    "x = (set_level (gm_level msg) (embedded lib m_ref msg))\<lparr>cm_timestamp := Some t\<rparr>" ..
  with x c that show thesis by simp
qed

lemma to_clef_additional:
  "to_clef dbg lib now s_ref m_ref msg = Ok c \<Longrightarrow>
   cm_additional c = override_all (payload msg @ envelope lib s_ref m_ref msg)
     (cm_additional (embedded lib m_ref msg))"
  by (elim to_clef_OkD) simp

lemma envelope_keys: "fst ` set (envelope lib s_ref m_ref msg) \<subseteq> {''host'', ''facility'', ''file'', ''line''}"
  by (auto simp: envelope_def)


lemma set_level_Some: "cm_level (set_level l c) \<noteq> None"
  by (cases "cm_level c") (auto simp: set_level_def)

lemma from_decimal_release_Ok:
  assumes "decimal_contract dec neg coeff"
  shows "\<exists>t. from_decimal False dec x = Ok t"
proof (cases "neg x")
  case True
  with assms show ?thesis
    by (simp add: from_decimal_def decimal_contract_def)
next
  case False
  note d = decimal_contractD [OF assms False]
  let ?s = "unat (dec_scale dec x)"
  consider "?s \<le> 9" "coeff x div 10 ^ ?s < 2 ^ 64" | "9 < ?s" | "\<not> coeff x div 10 ^ ?s < 2 ^ 64"
    by linarith
  then show ?thesis
  proof cases
    case 1
    have f: "coeff x mod 10 ^ ?s < 10 ^ ?s" by simp
    show ?thesis
      using d duration_new_of_nat [OF 1(2) fraction_scaled(1) [OF 1(1), of "coeff x"]]
        nanos_short_scale [OF 1(1) f, of False]
      by (simp add: from_decimal_unfold Let_def)
  next
    case 2
    then have "unat (9 - dec_scale dec x) = 9 + 2 ^ 32 - ?s" by (simp add: unat_sub_if')
    with d(2) have "(10 :: u32) ^ unat (9 - dec_scale dec x) = 0"
      by (intro pow10_wraps_to_0) simp
    moreover have "\<exists>t. duration_new (of_nat s) 0 = Ok t" if "s < 2 ^ 64" for s
      using duration_new_of_nat [OF that, of 0] by simp
    ultimately show ?thesis
      using d by (fastforce simp: from_decimal_unfold Let_def sub_u32_def pow_u32_def mul_u32_def)
  next
    case 3
    with d show ?thesis by (simp add: from_decimal_unfold Let_def)
  qed
qed

lemma set_timestamp_release_Ok:
  assumes "decimal_contract dec neg coeff"
  shows "\<exists>c'. set_timestamp False dec parse now ts c = Ok c'"
proof -
  have "\<exists>t. (case ts of None \<Rightarrow> Ok None | Some x \<Rightarrow> from_decimal False dec x) = Ok t"
    using from_decimal_release_Ok [OF assms] by (cases ts) auto
  then show ?thesis
    by (auto simp: set_timestamp_def split: option.splits)
qed


lemma embedded_plain:
  assumes "m_ref (gm_short_message msg) = [] \<or> hd (m_ref (gm_short_message msg)) \<noteq> CHR ''{''"
  shows "embedded lib m_ref msg = from_message (m_ref (gm_short_message msg))"
  using assms by (auto simp: embedded_def maybe_from_json_def)

lemma to_clef_release_Ok:
  assumes "decimal_contract (decimals lib) neg coeff"
  shows "\<exists>c. to_clef False lib now s_ref m_ref msg = Ok c"
proof -
  obtain c' where "set_timestamp False (decimals lib) (parse_rfc3339 lib) now (gm_timestamp msg)
      (set_level (gm_level msg) (embedded lib m_ref msg)) = Ok c'"
    using set_timestamp_release_Ok [OF assms] by blast
  then show ?thesis by (simp add: to_clef_unfold)
qed

lemma to_clef_dated:
  "to_clef dbg lib now s_ref m_ref msg = Ok c \<Longrightarrow> cm_timestamp c \<noteq> None \<and> cm_level c \<noteq> None"
  using set_level_Some [of "gm_level msg" "embedded lib m_ref msg"] by (auto elim!: to_clef_OkD)

text \<open>A plain message has the time it says.\<close>

lemma plain_timestamp:
  assumes "to_clef dbg lib now s_ref m_ref msg = Ok c"
    and "m_ref (gm_short_message msg) = [] \<or> hd (m_ref (gm_short_message msg)) \<noteq> CHR ''{''"
    and "gm_timestamp msg = Some x" and "from_decimal dbg (decimals lib) x = Ok (Some ts)"
  shows "cm_timestamp c = Some ts"
  using assms(1)
proof (rule to_clef_OkD)
  fix t
  assume "set_timestamp dbg (decimals lib) (parse_rfc3339 lib) now (gm_timestamp msg)
       (set_level (gm_level msg) (embedded lib m_ref msg)) =
     Ok ((set_level (gm_level msg) (embedded lib m_ref msg))\<lparr>cm_timestamp := Some t\<rparr>)"
  then have "t = ts"
    using assms(3,4) embedded_plain [of m_ref msg lib, OF assms(2)]
    by (simp add: set_timestamp_def set_level_def from_message_def Let_def)
  then show "c = (set_message (set_exception (m_ref (gm_short_message msg))
          (map_option m_ref (gm_full_message msg))
          ((set_level (gm_level msg) (embedded lib m_ref msg))\<lparr>cm_timestamp := Some t\<rparr>)))
        \<lparr>cm_additional := override_all (payload msg @ envelope lib s_ref m_ref msg)
           (cm_additional (embedded lib m_ref msg))\<rparr> \<Longrightarrow> cm_timestamp c = Some ts"
    by (simp add: set_message_def set_exception_def Let_def split: option.splits)
qed

text \<open>Names under which additional members can end up.\<close>

lemma keys_override:
  "set (sm_keys (override_value n v m)) \<subseteq> {n, ''__'' @ n} \<union> set (sm_keys m)"
  by (auto simp: override_value_def Let_def split: option.splits)

lemma keys_override_all:
  "set (sm_keys (override_all ws m)) \<subseteq>
     fst ` set ws \<union> (\<lambda>k. ''__'' @ k) ` fst ` set ws \<union> set (sm_keys m)"
proof (induction ws arbitrary: m)
  case (Cons w ws)
  obtain k v where w: "w = (k, v)" by fastforce
  show ?case
    using Cons.IH [of "override_value k v m"] keys_override [of k v m]
    by (auto simp: w override_all_Cons)
qed (simp add: override_all_def)

lemma sm_keys_get: "k \<in> set (sm_keys m) \<longleftrightarrow> sm_get m k \<noteq> None"
  by (induction m) (auto simp: sm_keys_def)

definition reserved :: "string list" where
  "reserved = [''@t'', ''@l'', ''@m'', ''@mt'', ''@x'']"

text \<open>The built-in members of a printed event come first, without repetition.\<close>

definition builtin_names :: "'n clef \<Rightarrow> string list" where
  "builtin_names c =
     [''@t'', ''@l''] @ map (\<lambda>_. ''@m'') (option_list (cm_message c))
     @ map (\<lambda>_. ''@mt'') (option_list (cm_message_template c))
     @ map (\<lambda>_. ''@x'') (option_list (cm_exception c))"

lemma clef_members_names:
  "clef_members fmt c = Ok ms \<Longrightarrow> map fst ms = builtin_names c @ sm_keys (cm_additional c)"
  by (auto simp: clef_members_Ok clef_fields_def Let_def builtin_names_def option_list_def sm_keys_def
      split: option.splits)

lemma builtin_names_reserved: "distinct (builtin_names c)" "set (builtin_names c) \<subseteq> set reserved"
  by (auto simp: builtin_names_def reserved_def option_list_def split: option.splits)

section \<open>A library to run the mapping with\<close>

text \<open>
  Sample instances of the parameters: a message parser that takes the bytes as the short
  message, and one embedded event, recognised by its text.
\<close>

definition sample_event :: "nat clef" where
  "sample_event =
     \<lparr>cm_timestamp = Some (Timestamp 5), cm_level = Some (Borrowed ''warn''),
      cm_message = None, cm_message_template = Some (Borrowed ''hi {n}''),
      cm_exception = Some (Borrowed ''trace''),
      cm_additional = [(Borrowed ''host'', JString ''inner''), (Borrowed ''n'', JNumber 1)]\<rparr>"

definition sample_message :: "'m \<Rightarrow> ('s, 'm, bool \<times> nat \<times> nat, nat) gelf_message" where
  "sample_message short =
     \<lparr>gm_version = None, gm_host = None, gm_short_message = short, gm_full_message = None,
      gm_timestamp = Some (False, 15, 1), gm_level = Some 3, gm_facility = None, gm_line = None,
      gm_file = None,
      gm_additional = Some (JObject [(''_host'', JString ''payload''), (''x'', JNumber 7)])\<rparr>"

definition sample_format :: "system_time \<Rightarrow> string result" where
  "sample_format t = (if printable_time t then Ok ''then'' else Panic (Panic_str ''there should be an error''))"

lemma sample_rfc3339: "rfc3339_contract sample_format"
  by (simp add: rfc3339_contract_def sample_format_def)

text \<open>The library of the examples, for readers of any kind and for those without decompressors.\<close>

definition sample_library :: "(string, bool \<times> nat \<times> nat, nat, ('g, 'z) reader) process_lib" where
  "sample_library =
     \<lparr>decimals = sample_decimal,
      parse_rfc3339 = (\<lambda>_. Inl ''invalid''),
      format_rfc3339 = sample_format,
      clef_from_str = (\<lambda>s. if s = ''{event}'' then Some sample_event else None),
      clef_to_string = (\<lambda>ms. Some (concat (map fst ms))),
      number_from = unat,
      cached_text = (\<lambda>s. s),
      gelf_from_slice = (\<lambda>bs. if valid_utf8 bs then Ok (sample_message (Borrowed (chars bs)))
        else Err (Library ''invalid UTF-8'' [])),
      gelf_from_str = (\<lambda>s. Ok (sample_message s)),
      gelf_from_reader = (\<lambda>rd r. case read_to_end rd (\<lambda>_. 32) r [] of
          Some (Ok bs) \<Rightarrow> if valid_utf8 bs then Ok (sample_message (chars bs))
            else Err (Library ''invalid UTF-8'' [])
        | _ \<Rightarrow> Err (Library ''unreadable'' [])),
      debug_text = (\<lambda>s. s),
      buffer_size = (\<lambda>_. 32)\<rparr>"

abbreviation sample_lib :: "(string, bool \<times> nat \<times> nat, nat, (unit, unit) reader) process_lib" where
  "sample_lib \<equiv> sample_library"

lemmas sample_lib_def = sample_library_def

lemma sample_to_clef_Ok: "\<exists>c. to_clef False sample_lib now s_ref m_ref msg = Ok c"
proof (rule to_clef_release_Ok)
  show "decimal_contract (decimals sample_lib) fst (\<lambda>(n, c, s). c)"
    using sample_decimal_contract by (simp add: sample_lib_def)
qed

lemma clef_members_then: "\<exists>ms. clef_members (\<lambda>_. Ok ''then'') c = Ok ms"
proof (cases "cm_timestamp c")
  case (Some t)
  then show ?thesis by (cases t) (simp add: clef_members_def timestamp_json_def)
qed (simp add: clef_members_def timestamp_json_def)

lemmas sample_defs = sample_format_def printable_time_def sample_lib_def sample_event_def sample_message_def sample_decimal_def

text \<open>
  The names of the additional members of an event, if the embedded event has no two equal names
  and neither it nor the payload uses a name that the format reserves.
\<close>

lemma to_clef_names:
  assumes "to_clef dbg lib now s_ref m_ref msg = Ok c"
    and "sm_wf (cm_additional (embedded lib m_ref msg))"
    and "set reserved \<inter> (set (sm_keys (cm_additional (embedded lib m_ref msg)))
      \<union> fst ` set (payload msg)) = {}"
  shows "set reserved \<inter> set (sm_keys (cm_additional c)) = {}" and "sm_wf (cm_additional c)"
proof -
  let ?ws = "payload msg @ envelope lib s_ref m_ref msg"
  show "set reserved \<inter> set (sm_keys (cm_additional c)) = {}"
  proof (rule equals0I)
    fix r
    assume r: "r \<in> set reserved \<inter> set (sm_keys (cm_additional c))"
    then have hd: "hd r = CHR ''@''" by (auto simp: reserved_def)
    then have "r \<notin> (\<lambda>k. ''__'' @ k) ` fst ` set ?ws" "r \<notin> fst ` set (envelope lib s_ref m_ref msg)"
      using envelope_keys [of lib s_ref m_ref msg] by auto
    moreover have "r \<in> fst ` set ?ws \<union> (\<lambda>k. ''__'' @ k) ` fst ` set ?ws
        \<union> set (sm_keys (cm_additional (embedded lib m_ref msg)))"
      using r keys_override_all unfolding to_clef_additional [OF assms(1)] by blast
    ultimately have "r \<in> fst ` set (payload msg)
        \<union> set (sm_keys (cm_additional (embedded lib m_ref msg)))"
      by (simp add: image_Un)
    with r assms(3) show False by blast
  qed
  show "sm_wf (cm_additional c)"
    using sm_wf_override_all [OF assms(2)]
    unfolding to_clef_additional [OF assms(1)] by simp
qed

section \<open>Properties\<close>




text \<open>
  C24: the mapping is total in a release build. Every message that parses becomes an event,
  with a timestamp and a level, whatever its fields hold.
\<close>

theorem to_clef_total:
  assumes "decimal_contract (decimals lib) neg coeff"
  shows "\<exists>c. to_clef False lib now s_ref m_ref msg = Ok c \<and>
    cm_timestamp c \<noteq> None \<and> cm_level c \<noteq> None"
  using to_clef_release_Ok [OF assms] to_clef_dated by blast

theorem to_clef_total_witness:
  "\<exists>c. to_clef False sample_lib 9 str_text str_text
       ((sample_message (Borrowed ''hi''))\<lparr>gm_timestamp := Some (False, 99999999999999999999, 28)\<rparr>) = Ok c \<and>
     cm_timestamp c \<noteq> None \<and> cm_level c \<noteq> None"
  using to_clef_total [of sample_lib fst "\<lambda>(n, c, s). c"] sample_decimal_contract
  by (simp add: sample_lib_def)

text \<open>
  C23: a plain message. When the short message does not start with a brace, the event has it
  as its message and no template, the syslog name of the level (\<open>info\<close> when there is none),
  the full message as its exception when it differs from the short one, and only the names
  of the payload and of the envelope as additional members.
\<close>

theorem plain_message_event:
  assumes "to_clef dbg lib now s_ref m_ref msg = Ok c"
    and "m_ref (gm_short_message msg) = [] \<or> hd (m_ref (gm_short_message msg)) \<noteq> CHR ''{''"
  shows "cm_message c = Some (Borrowed (m_ref (gm_short_message msg))) \<and>
    cm_message_template c = None \<and>
    cm_level c = Some (Borrowed (syslog_level (case gm_level msg of None \<Rightarrow> 6 | Some l \<Rightarrow> l))) \<and>
    (\<forall>x. cm_exception c = Some x \<longleftrightarrow> (\<exists>full. gm_full_message msg = Some full \<and>
       m_ref full \<noteq> m_ref (gm_short_message msg) \<and> x = Borrowed (m_ref full))) \<and>
    cm_additional c = override_all (payload msg @ envelope lib s_ref m_ref msg) []"
  using assms(1)
proof (rule to_clef_OkD)
  fix t
  assume c: "c = (set_message (set_exception (m_ref (gm_short_message msg))
          (map_option m_ref (gm_full_message msg))
          ((set_level (gm_level msg) (embedded lib m_ref msg))\<lparr>cm_timestamp := Some t\<rparr>)))
        \<lparr>cm_additional := override_all (payload msg @ envelope lib s_ref m_ref msg)
           (cm_additional (embedded lib m_ref msg))\<rparr>"
  show ?thesis
    unfolding c embedded_plain [of m_ref msg, OF assms(2)]
    by (cases "gm_full_message msg")
      (auto simp: set_message_def set_exception_def set_level_def from_message_def
        split: option.splits)
qed

theorem plain_message_event_witness:
  "\<exists>c. to_clef False sample_lib 9 str_text str_text (sample_message (Borrowed ''hi'')) = Ok c \<and>
     cm_message c = Some (Borrowed ''hi'') \<and> cm_level c = Some (Borrowed ''err'')"
proof -
  let ?msg = "sample_message (Borrowed ''hi'') ::
    (string str, string str, bool \<times> nat \<times> nat, nat) gelf_message"
  obtain c where c: "to_clef False sample_lib 9 str_text str_text ?msg = Ok c"
    using sample_to_clef_Ok by blast
  show ?thesis
    using c plain_message_event [OF c] by (simp add: sample_defs syslog_level_def)
qed

text \<open>
  C22: an embedded event has precedence. What the short message, read as an event, says of
  timestamp, level, exception and message is kept whatever the envelope holds.
\<close>

theorem embedded_event_kept:
  assumes "to_clef dbg lib now s_ref m_ref msg = Ok c"
    and "maybe_from_json (clef_from_str lib) (m_ref (gm_short_message msg)) = Some e"
  shows "(cm_timestamp e \<noteq> None \<longrightarrow> cm_timestamp c = cm_timestamp e) \<and>
    (cm_level e \<noteq> None \<longrightarrow> cm_level c = cm_level e) \<and>
    (cm_exception e \<noteq> None \<longrightarrow> cm_exception c = cm_exception e) \<and>
    (cm_message e \<noteq> None \<or> cm_message_template e \<noteq> None \<longrightarrow> cm_message c = cm_message e) \<and>
    cm_message_template c = cm_message_template e"
  using assms(1)
proof (rule to_clef_OkD)
  fix t
  let ?c = "set_level (gm_level msg) (embedded lib m_ref msg)"
  have e: "embedded lib m_ref msg = e"
    using assms(2) by (simp add: embedded_def)
  assume t: "set_timestamp dbg (decimals lib) (parse_rfc3339 lib) now (gm_timestamp msg) ?c =
      Ok (?c\<lparr>cm_timestamp := Some t\<rparr>)"
    and c: "c = (set_message (set_exception (m_ref (gm_short_message msg))
          (map_option m_ref (gm_full_message msg)) (?c\<lparr>cm_timestamp := Some t\<rparr>)))
        \<lparr>cm_additional := override_all (payload msg @ envelope lib s_ref m_ref msg)
           (cm_additional (embedded lib m_ref msg))\<rparr>"
  have "cm_timestamp e \<noteq> None \<longrightarrow> Some t = cm_timestamp e"
    using arg_cong [OF t, of "\<lambda>r. case r of Ok c \<Rightarrow> cm_timestamp c"]
    by (auto simp: set_timestamp_def e)
  then show ?thesis
    unfolding c e by (auto simp: set_message_def set_exception_def set_level_def)
qed

theorem embedded_event_kept_witness:
  "\<exists>c. to_clef False sample_lib 9 str_text str_text (sample_message (Borrowed ''{event}'')) = Ok c \<and>
     cm_timestamp c = Some (Timestamp 5) \<and> cm_level c = Some (Borrowed ''warn'') \<and>
     cm_message c = None"
proof -
  let ?msg = "sample_message (Borrowed ''{event}'') ::
    (string str, string str, bool \<times> nat \<times> nat, nat) gelf_message"
  obtain c where c: "to_clef False sample_lib 9 str_text str_text ?msg = Ok c"
    using sample_to_clef_Ok by blast
  show ?thesis
    using c embedded_event_kept [OF c, of sample_event]
    by (simp add: sample_defs maybe_from_json_def)
qed


text \<open>
  C39: of three values for a name the lowest is lost. When the embedded event, the payload
  and the envelope all have a \<open>host\<close>, the event has the envelope's as \<open>host\<close> and the
  payload's as \<open>__host\<close>, and nothing else: the embedded one is gone.
\<close>

theorem third_value_lost:
  assumes "to_clef dbg lib now s_ref m_ref msg = Ok c"
    and "cm_additional (embedded lib m_ref msg) = [(Borrowed ''host'', inner)]"
    and "payload msg = [(''host'', middle)]"
    and "envelope lib s_ref m_ref msg = [(''host'', outer)]"
  shows "sm_get (cm_additional c) = [''host'' \<mapsto> outer, ''__host'' \<mapsto> middle]"
  unfolding to_clef_additional [OF assms(1)] assms(2-4)
  by (rule ext) (auto simp: override_all_Cons override_all_def sm_get_override)

theorem third_value_lost_witness:
  "\<exists>c. to_clef False (sample_lib\<lparr>clef_from_str :=
         (\<lambda>_. Some (sample_event\<lparr>cm_additional := [(Borrowed ''host'', JString ''inner'')]\<rparr>))\<rparr>)
       9 str_text str_text
       ((sample_message (Borrowed ''{event}''))\<lparr>gm_host := Some (Borrowed ''outer''),
          gm_additional := Some (JObject [(''_host'', JString ''payload'')])\<rparr>) = Ok c \<and>
     sm_get (cm_additional c) =
       [''host'' \<mapsto> JString ''outer'', ''__host'' \<mapsto> JString ''payload'']"
proof -
  let ?lib = "sample_lib\<lparr>clef_from_str :=
      (\<lambda>_. Some (sample_event\<lparr>cm_additional := [(Borrowed ''host'', JString ''inner'')]\<rparr>))\<rparr>"
  let ?msg = "(sample_message (Borrowed ''{event}''))\<lparr>gm_host := Some (Borrowed ''outer''),
      gm_additional := Some (JObject [(''_host'', JString ''payload'')])\<rparr> ::
    (string str, string str, bool \<times> nat \<times> nat, nat) gelf_message"
  have "decimal_contract (decimals ?lib) fst (\<lambda>(n, c, s). c)"
    using sample_decimal_contract by (simp add: sample_lib_def)
  from to_clef_release_Ok [OF this]
  obtain c where c: "to_clef False ?lib 9 str_text str_text ?msg = Ok c" by blast
  show ?thesis
    using c third_value_lost [OF c, of "JString ''inner''" "JString ''payload''" "JString ''outer''"]
    by (simp add: sample_defs payload_def additional_def envelope_def embedded_def
        maybe_from_json_def option_list_def strip_underscore_def)
qed

text \<open>
  C35: the members of a printed event are distinct, if the embedded event has no two equal
  names and neither it nor the payload uses a name that the format reserves.
\<close>

theorem clef_members_distinct:
  assumes "to_clef dbg lib now s_ref m_ref msg = Ok c"
    and "sm_wf (cm_additional (embedded lib m_ref msg))"
    and "set reserved \<inter> (set (sm_keys (cm_additional (embedded lib m_ref msg)))
      \<union> fst ` set (payload msg)) = {}"
    and "clef_members fmt c = Ok ms"
  shows "distinct (map fst ms)"
  using to_clef_names [OF assms(1-3)] builtin_names_reserved [of c]
  by (auto simp: clef_members_names [OF assms(4)] sm_wf_def)

theorem clef_members_distinct_witness:
  "\<exists>c ms. to_clef False sample_lib 9 str_text str_text (sample_message (Borrowed ''{event}'')) = Ok c \<and>
     clef_members (\<lambda>_. Ok ''then'') c = Ok ms \<and> distinct (map fst ms)"
proof -
  let ?msg = "sample_message (Borrowed ''{event}'') ::
    (string str, string str, bool \<times> nat \<times> nat, nat) gelf_message"
  obtain c where c: "to_clef False sample_lib 9 str_text str_text ?msg = Ok c"
    using sample_to_clef_Ok by blast
  show ?thesis
    using c clef_members_distinct [OF c, of "\<lambda>_. Ok ''then''"] clef_members_then [of c]
    by (auto simp: sample_defs maybe_from_json_def embedded_def payload_def additional_def
        strip_underscore_def reserved_def sm_wf_def sm_keys_def)
qed

text \<open>
  C40: a reserved name in the payload is printed twice. A GELF field \<open>_@t\<close> or \<open>_@l\<close> loses
  its underscore and becomes a second member of that name beside the built-in one.
\<close>

theorem reserved_name_printed_twice:
  assumes "to_clef dbg lib now s_ref m_ref msg = Ok c"
    and "k = ''@t'' \<or> k = ''@l''"
    and "k \<in> fst ` set (payload msg)" and "clef_members fmt c = Ok ms"
  shows "\<not> distinct (map fst ms)"
proof -
  have "\<not> dunder k" using assms(2) by (auto simp: dunder_def)
  moreover have "written k (payload msg @ envelope lib s_ref m_ref msg) \<noteq> []"
    using assms(3) by (simp add: written_Nil_iff image_Un)
  ultimately have "k \<in> set (sm_keys (cm_additional c))"
    by (simp add: sm_keys_get to_clef_additional [OF assms(1)] get_override_all Let_def)
  moreover have "k \<in> set (builtin_names c)"
    using assms(2) by (auto simp: builtin_names_def)
  ultimately show ?thesis
    by (auto simp: clef_members_names [OF assms(4)])
qed

theorem reserved_name_printed_twice_witness:
  "\<exists>c ms. to_clef False sample_lib 9 str_text str_text ((sample_message (Borrowed ''hi''))
         \<lparr>gm_additional := Some (JObject [(''_@l'', JString ''x'')])\<rparr>) = Ok c \<and>
     clef_members (\<lambda>_. Ok ''then'') c = Ok ms \<and> \<not> distinct (map fst ms)"
proof -
  let ?msg = "(sample_message (Borrowed ''hi''))
      \<lparr>gm_additional := Some (JObject [(''_@l'', JString ''x'')])\<rparr> ::
    (string str, string str, bool \<times> nat \<times> nat, nat) gelf_message"
  obtain c where c: "to_clef False sample_lib 9 str_text str_text ?msg = Ok c"
    using sample_to_clef_Ok by blast
  show ?thesis
    using c reserved_name_printed_twice [OF c, of "''@l''" "\<lambda>_. Ok ''then''"] clef_members_then [of c]
    by (auto simp: payload_def additional_def strip_underscore_def)
qed

end
