(* ===== verification/Process_Run.thy ===== *)
theory Process_Run
  imports Process_Props
begin

text \<open>
  The processor on whole messages. What it prints depends on the bytes of the message only,
  not on whether they are read from one slice or through a reader, from one chunk or from
  many: the interface \<open>mem_reader\<close> says what it means for a message to have bytes, and
  the parsers are assumed to agree on the same bytes.
\<close>

section \<open>Texts of a message\<close>

definition message_texts ::
  "('s \<Rightarrow> string) \<Rightarrow> ('m \<Rightarrow> string) \<Rightarrow> ('s, 'm, 'd, 'n) gelf_message \<Rightarrow>
   (string, string, 'd, 'n) gelf_message" where
  "message_texts s_ref m_ref msg =
     \<lparr>gm_version = map_option s_ref (gm_version msg), gm_host = map_option s_ref (gm_host msg),
      gm_short_message = m_ref (gm_short_message msg),
      gm_full_message = map_option m_ref (gm_full_message msg),
      gm_timestamp = gm_timestamp msg, gm_level = gm_level msg,
      gm_facility = map_option m_ref (gm_facility msg), gm_line = gm_line msg,
      gm_file = map_option m_ref (gm_file msg), gm_additional = gm_additional msg\<rparr>"

abbreviation text_to_clef ::
  "bool \<Rightarrow> ('c, 'd, 'n, 'r) process_lib \<Rightarrow> system_time \<Rightarrow> (string, string, 'd, 'n) gelf_message \<Rightarrow>
   'n clef result" where
  "text_to_clef dbg lib now \<equiv> to_clef dbg lib now (\<lambda>s. s) (\<lambda>s. s)"

text \<open>The mapping sees a message through its texts.\<close>

lemma to_clef_texts:
  "to_clef dbg lib now s_ref m_ref msg = text_to_clef dbg lib now (message_texts s_ref m_ref msg)"
  by (simp add: to_clef_def message_texts_def additional_def Let_def option.map_comp comp_def)

lemma add_texts:
  "message_texts s_ref m_ref (fst (add k v msg)) = fst (add k v (message_texts s_ref m_ref msg))"
  by (auto simp: add_def message_texts_def split: option.splits json.splits)

section \<open>Messages that have bytes\<close>

definition reads_all :: "('r \<Rightarrow> nat \<Rightarrow> 'r \<times> bytes result) \<Rightarrow> 'r \<Rightarrow> bytes \<Rightarrow> bool" where
  "reads_all rd r bs \<longleftrightarrow> (\<forall>sz. (\<forall>k. 0 < sz k) \<longrightarrow> read_to_end rd sz r [] = Some (Ok bs))"

definition reads_as :: "('b, 'r) mem_read \<Rightarrow> 'b \<Rightarrow> bytes \<Rightarrow> bool" where
  "reads_as mr m bs \<longleftrightarrow>
     (case mr_bytes mr m of
        Some bs' \<Rightarrow> bs' = bs
      | None \<Rightarrow> \<exists>r. mr_into_reader mr m = Ok r \<and> reads_all (mr_read mr) r bs)"

text \<open>
  A message that cannot be read: there is no reader of it, or reading to the end fails. So
  it is with compressed data that is damaged. What a message contains is its bytes, or
  nothing if it cannot be read.
\<close>

definition fails_all :: "('r \<Rightarrow> nat \<Rightarrow> 'r \<times> bytes result) \<Rightarrow> 'r \<Rightarrow> bool" where
  "fails_all rd r \<longleftrightarrow> (\<forall>sz. (\<forall>k. 0 < sz k) \<longrightarrow> (\<exists>e. read_to_end rd sz r [] = Some (Err e)))"

definition unreadable :: "('b, 'r) mem_read \<Rightarrow> 'b \<Rightarrow> bool" where
  "unreadable mr m \<longleftrightarrow> mr_bytes mr m = None \<and>
     (case mr_into_reader mr m of
        Ok r \<Rightarrow> fails_all (mr_read mr) r | Err _ \<Rightarrow> True | Panic _ \<Rightarrow> False)"

definition contents :: "('b, 'r) mem_read \<Rightarrow> 'b \<Rightarrow> bytes option \<Rightarrow> bool" where
  "contents mr m b \<longleftrightarrow> (case b of Some bs \<Rightarrow> reads_as mr m bs | None \<Rightarrow> unreadable mr m)"

text \<open>
  The parsers agree with one grammar, \<open>parse\<close>: they accept what it accepts, with the same
  texts, and refuse the rest. What it accepts is UTF-8.
\<close>

definition parses ::
  "('s \<Rightarrow> string) \<Rightarrow> ('m \<Rightarrow> string) \<Rightarrow> ('s, 'm, 'd, 'n) gelf_message result \<Rightarrow>
   (string, string, 'd, 'n) gelf_message option \<Rightarrow> bool" where
  "parses s_ref m_ref r t \<longleftrightarrow>
     (case t of
        Some t \<Rightarrow> \<exists>msg. r = Ok msg \<and> message_texts s_ref m_ref msg = t
      | None \<Rightarrow> \<exists>e. r = Err e)"

definition parsers_agree ::
  "('c, 'd, 'n, 'r) process_lib \<Rightarrow> (bytes \<Rightarrow> (string, string, 'd, 'n) gelf_message option) \<Rightarrow> bool" where
  "parsers_agree lib parse \<longleftrightarrow>
     (\<forall>bs. parse bs \<noteq> None \<longrightarrow> valid_utf8 bs) \<and>
     (\<forall>bs. parses str_text str_text (gelf_from_slice lib bs) (parse bs)) \<and>
     (\<forall>bs. valid_utf8 bs \<longrightarrow>
        parses (inlinable_as_ref (cached_text lib)) (\<lambda>s. s) (gelf_from_str lib (chars bs)) (parse bs)) \<and>
     (\<forall>rd r bs. reads_all rd r bs \<longrightarrow>
        parses (inlinable_as_ref (cached_text lib)) (\<lambda>s. s) (gelf_from_reader lib rd r) (parse bs)) \<and>
     (\<forall>k. 0 < buffer_size lib k)"

text \<open>
  What the program relies on of \<open>serde_json\<close>: its parsers agree, a reader that fails makes
  parsing fail, and an object with names and values can always be printed.
\<close>

definition serde_contract ::
  "('c, 'd, 'n, 'r) process_lib \<Rightarrow> (bytes \<Rightarrow> (string, string, 'd, 'n) gelf_message option) \<Rightarrow> bool" where
  "serde_contract lib parse \<longleftrightarrow>
     parsers_agree lib parse \<and>
     (\<forall>rd r. fails_all rd r \<longrightarrow> (\<exists>e. gelf_from_reader lib rd r = Err e)) \<and>
     (\<forall>ms. \<exists>line. clef_to_string lib ms = Some line)"

text \<open>The message as the processor sees it: with its raw text added, if that is asked for.\<close>

definition with_raw ::
  "bool \<Rightarrow> bytes \<Rightarrow> (string, string, 'd, 'n) gelf_message \<Rightarrow> (string, string, 'd, 'n) gelf_message" where
  "with_raw raw bs t = (if raw then fst (add ''raw_payload'' (JString (chars bs)) t) else t)"

lemma parses_Some: "parses s_ref m_ref r (Some t) \<longleftrightarrow> (\<exists>msg. r = Ok msg \<and> message_texts s_ref m_ref msg = t)"
  and parses_None: "parses s_ref m_ref r None \<longleftrightarrow> (\<exists>e. r = Err e)"
  by (simp_all add: parses_def)

lemma parse_slice_parses:
  assumes "parsers_agree lib parse"
  shows "parses str_text str_text (parse_slice lib raw bs) (map_option (with_raw raw bs) (parse bs))"
proof (cases "parse bs")
  case None
  then obtain e where "gelf_from_slice lib bs = Err e"
    using assms parses_None unfolding parsers_agree_def by metis
  with None show ?thesis
    by (simp add: parse_slice_def parse_context_def parses_None)
next
  case (Some t)
  then obtain msg where "gelf_from_slice lib bs = Ok msg" "message_texts str_text str_text msg = t"
    using assms parses_Some unfolding parsers_agree_def by metis
  moreover have "from_utf8_lossy bs = chars bs"
    using assms Some from_utf8_lossy_valid unfolding parsers_agree_def by blast
  ultimately show ?thesis
    using Some by (simp add: parse_slice_def parse_context_def parses_Some with_raw_def add_texts)
qed

lemma read_to_string_all:
  assumes "reads_all rd r bs" and "\<forall>k. 0 < sz k"
  shows "read_to_string rd sz r =
    Some (if valid_utf8 bs then Ok (chars bs)
      else Err (Io OtherKind ''stream did not contain valid UTF-8''))"
  using assms by (simp add: read_to_string_def reads_all_def)

lemma parse_stream_parses:
  assumes agree: "parsers_agree lib parse" and all: "reads_all rd r bs"
  shows "\<exists>x. parse_stream lib raw rd (Ok r) = Some x \<and>
    parses (inlinable_as_ref (cached_text lib)) (\<lambda>s. s) x (map_option (with_raw raw bs) (parse bs))"
proof (cases raw)
  case False
  have "parses (inlinable_as_ref (cached_text lib)) (\<lambda>s. s) (gelf_from_reader lib rd r) (parse bs)"
    using agree all unfolding parsers_agree_def by blast
  with False show ?thesis
    by (simp add: parse_stream_def with_raw_def [abs_def] option.map_ident)
next
  case True
  have sz: "\<forall>k. 0 < buffer_size lib k" and utf8: "parse bs \<noteq> None \<Longrightarrow> valid_utf8 bs"
    using agree unfolding parsers_agree_def by blast+
  note whole = read_to_string_all [OF all sz]
  show ?thesis
  proof (cases "valid_utf8 bs")
    case False
    with utf8 have "parse bs = None" by blast
    with whole True False show ?thesis
      by (simp add: parse_stream_def parses_None)
  next
    case valid: True
    then have p: "parses (inlinable_as_ref (cached_text lib)) (\<lambda>s. s)
        (gelf_from_str lib (chars bs)) (parse bs)"
      using agree unfolding parsers_agree_def by blast
    show ?thesis
    proof (cases "parse bs")
      case None
      with p whole True valid show ?thesis
        by (auto simp: parse_stream_def parse_context_def parses_None)
    next
      case (Some t)
      with p whole True valid show ?thesis
        by (auto simp: parse_stream_def parse_context_def parses_Some with_raw_def add_texts)
    qed
  qed
qed


text \<open>What the processor does with a message that has bytes.\<close>

definition handle_event ::
  "('n clef \<Rightarrow> 'w \<Rightarrow> 'w \<times> unit result) \<Rightarrow> diag \<Rightarrow> 'w \<Rightarrow> 'n clef result \<Rightarrow> diag \<times> 'w \<times> unit result" where
  "handle_event with_event d w r =
     (case r of
        Ok c \<Rightarrow> (case with_event c w of (w', x) \<Rightarrow> (d, w', x))
      | Err e \<Rightarrow> (d, w, Err e)
      | Panic q \<Rightarrow> (d, w, Panic q))"

lemma with_clef_handle:
  "with_clef dbg lib now mr p msg with_event d w =
     (case mr_bytes mr msg of
        Some bs \<Rightarrow> Some (handle_event with_event (increment (Process M_msg) d) w
          (outcome_bind (parse_slice lib (raw_payload p) bs) (to_clef dbg lib now str_text str_text)))
      | None \<Rightarrow> map_option (\<lambda>r. handle_event with_event (increment (Process M_msg) d) w
          (outcome_bind r (to_clef dbg lib now (inlinable_as_ref (cached_text lib)) (\<lambda>s. s))))
          (parse_stream lib (raw_payload p) (mr_read mr) (mr_into_reader mr msg)))"
  unfolding with_clef_def handle_event_def Let_def by (rule refl)

lemma parses_bind:
  assumes "parses s_ref m_ref r (Some t)"
  shows "outcome_bind r (to_clef dbg lib now s_ref m_ref) = text_to_clef dbg lib now t"
proof -
  obtain msg where "r = Ok msg" "message_texts s_ref m_ref msg = t"
    using assms by (auto simp: parses_Some)
  then show ?thesis
    using to_clef_texts [of dbg lib now s_ref m_ref msg] by simp
qed

lemma with_clef_parsed:
  assumes agree: "parsers_agree lib parse" and reads: "reads_as mr m bs"
    and t: "parse bs = Some t"
  shows "with_clef dbg lib now mr p m with_event d w =
    Some (handle_event with_event (increment (Process M_msg) d) w
      (text_to_clef dbg lib now (with_raw (raw_payload p) bs t)))"
proof (cases "mr_bytes mr m")
  case (Some bs')
  with reads have "bs' = bs" by (simp add: reads_as_def)
  with parse_slice_parses [OF agree, of "raw_payload p" bs] t Some show ?thesis
    by (simp add: with_clef_handle parses_bind)
next
  case None
  with reads obtain r where r: "mr_into_reader mr m = Ok r" "reads_all (mr_read mr) r bs"
    by (auto simp: reads_as_def)
  from parse_stream_parses [OF agree r(2), of "raw_payload p"] t r(1) None show ?thesis
    by (auto simp: with_clef_handle parses_bind)
qed

lemma with_clef_refused:
  assumes agree: "parsers_agree lib parse" and reads: "reads_as mr m bs" and "parse bs = None"
  shows "\<exists>e. with_clef dbg lib now mr p m with_event d w =
    Some (increment (Process M_msg) d, w, Err e)"
proof (cases "mr_bytes mr m")
  case (Some bs')
  with reads have "bs' = bs" by (simp add: reads_as_def)
  with parse_slice_parses [OF agree, of "raw_payload p" bs] assms(3) Some show ?thesis
    by (auto simp: with_clef_handle parses_None handle_event_def)
next
  case None
  with reads obtain r where r: "mr_into_reader mr m = Ok r" "reads_all (mr_read mr) r bs"
    by (auto simp: reads_as_def)
  from parse_stream_parses [OF agree r(2), of "raw_payload p"] assms(3) r(1) None show ?thesis
    by (auto simp: with_clef_handle parses_None handle_event_def)
qed

lemma with_clef_unreadable:
  assumes "serde_contract lib parse" and "unreadable mr m"
  shows "\<exists>e. with_clef dbg lib now mr p m with_event d w =
    Some (increment (Process M_msg) d, w, Err e)"
proof -
  have "\<exists>e. parse_stream lib (raw_payload p) (mr_read mr) (mr_into_reader mr m) = Some (Err e)"
  proof (cases "mr_into_reader mr m")
    case (Ok r)
    have sz: "\<forall>k. 0 < buffer_size lib k"
      using assms(1) unfolding serde_contract_def parsers_agree_def by blast
    have fails: "fails_all (mr_read mr) r" using assms(2) Ok by (simp add: unreadable_def)
    with sz obtain e where "read_to_end (mr_read mr) (buffer_size lib) r [] = Some (Err e)"
      by (auto simp: fails_all_def)
    moreover obtain e' where "gelf_from_reader lib (mr_read mr) r = Err e'"
      using assms(1) fails unfolding serde_contract_def by blast
    ultimately show ?thesis
      using Ok by (simp add: parse_stream_def read_to_string_def)
  qed (use assms(2) in \<open>auto simp: unreadable_def parse_stream_def\<close>)
  moreover have "mr_bytes mr m = None" using assms(2) by (simp add: unreadable_def)
  ultimately show ?thesis by (auto simp: with_clef_handle handle_event_def)
qed

section \<open>What becomes of a message\<close>

text \<open>
  In a release build a message is printed as one line, is refused with an error, or makes the
  processor panic, which happens when the time of its event cannot be written.
\<close>

datatype fate = Printed string | Refused | Crashed

definition fate ::
  "('c, 'd, 'n, 'r) process_lib \<Rightarrow> (bytes \<Rightarrow> (string, string, 'd, 'n) gelf_message option) \<Rightarrow>
   system_time \<Rightarrow> process \<Rightarrow> bytes option \<Rightarrow> fate" where
  "fate lib parse now p b =
     (case Option.bind b (\<lambda>bs. map_option (with_raw (raw_payload p) bs) (parse bs)) of
        None \<Rightarrow> Refused
      | Some t \<Rightarrow>
          (case outcome_bind (text_to_clef False lib now t) (clef_members (format_rfc3339 lib)) of
             Ok ms \<Rightarrow> (case clef_to_string lib ms of Some line \<Rightarrow> Printed line | None \<Rightarrow> Refused)
           | _ \<Rightarrow> Crashed))"

fun fate_lines :: "fate \<Rightarrow> string list" where
  "fate_lines (Printed line) = [line]"
| "fate_lines _ = []"

fun fits :: "fate \<Rightarrow> unit result \<Rightarrow> bool" where
  "fits (Printed _) r = (r = Ok ())"
| "fits Refused r = (\<exists>e. r = Err e)"
| "fits Crashed r = (\<exists>q. r = Panic q)"

lemma read_as_clef_event:
  assumes "serde_contract lib parse" and "decimal_contract (decimals lib) neg coeff"
    and "rfc3339_contract (format_rfc3339 lib)" and "reads_as mr m bs" and "parse bs = Some t"
  shows "\<exists>c s. text_to_clef False lib now (with_raw (raw_payload p) bs t) = Ok c \<and>
    cm_timestamp c = Some (Timestamp s) \<and>
    (if printable_time s
     then \<exists>ms line. clef_members (format_rfc3339 lib) c = Ok ms \<and> clef_to_string lib ms = Some line \<and>
       read_as_clef False lib now mr p m d out = Some (increment (Process M_msg) d, out @ [line], Ok ())
     else \<exists>q. clef_members (format_rfc3339 lib) c = Panic q \<and>
       read_as_clef False lib now mr p m d out = Some (increment (Process M_msg) d, out, Panic q))"
proof -
  obtain c where c: "text_to_clef False lib now (with_raw (raw_payload p) bs t) = Ok c"
    using to_clef_release_Ok [OF assms(2)] by blast
  obtain s where s: "cm_timestamp c = Some (Timestamp s)"
    using to_clef_dated [OF c] by (metis not_None_eq timestamp.exhaust)
  have agree: "parsers_agree lib parse" and total: "\<exists>line. clef_to_string lib ms = Some line" for ms
    using assms(1) by (auto simp: serde_contract_def)
  have "read_as_clef False lib now mr p m d out =
      Some (handle_event (print_clef lib) (increment (Process M_msg) d) out (Ok c))"
    using with_clef_parsed [OF agree assms(4,5), of False now p "print_clef lib" d out] c
    by (simp add: read_as_clef_def)
  with clef_members_written [OF assms(3) s] c s total show ?thesis
    by (fastforce simp: handle_event_def print_clef_def)
qed

lemma read_as_clef_fate:
  assumes "serde_contract lib parse" and "decimal_contract (decimals lib) neg coeff"
    and "rfc3339_contract (format_rfc3339 lib)" and "contents mr m b"
  shows "\<exists>r. read_as_clef False lib now mr p m d out =
      Some (increment (Process M_msg) d, out @ fate_lines (fate lib parse now p b), r) \<and>
    fits (fate lib parse now p b) r"
proof (cases "Option.bind b (\<lambda>bs. map_option (with_raw (raw_payload p) bs) (parse bs))")
  case None
  have agree: "parsers_agree lib parse" using assms(1) by (simp add: serde_contract_def)
  have "\<exists>e. with_clef False lib now mr p m (print_clef lib) d out = Some (increment (Process M_msg) d, out, Err e)"
  proof (cases b)
    case None
    with with_clef_unreadable [OF assms(1)] assms(4) show ?thesis by (simp add: contents_def)
  next
    case (Some bs)
    with with_clef_refused [OF agree] assms(4) \<open>Option.bind b _ = None\<close> show ?thesis by (simp add: contents_def)
  qed
  with None show ?thesis by (auto simp: fate_def read_as_clef_def)
next
  case (Some t)
  then obtain bs t0 where b: "b = Some bs" "parse bs = Some t0" "t = with_raw (raw_payload p) bs t0"
    by (auto simp: bind_eq_Some_conv)
  have "reads_as mr m bs" using assms(4) b(1) by (simp add: contents_def)
  from read_as_clef_event [OF assms(1-3) this b(2), of now p d out] b show ?thesis
    by (auto simp: fate_def split: if_splits)
qed

text \<open>A message that does not crash gives one line exactly if it can be read and parses.\<close>

lemma fate_lines_length:
  "serde_contract lib parse \<Longrightarrow> fate lib parse now p b \<noteq> Crashed \<Longrightarrow>
   length (fate_lines (fate lib parse now p b)) = (if Option.bind b parse = None then 0 else 1)"
  unfolding serde_contract_def fate_def
  by (cases b; cases "parse (the b)") (auto split: outcome.splits option.splits)

text \<open>A message crashes exactly when the time of its event is not printable.\<close>

lemma fate_Crashed_iff:
  assumes "serde_contract lib parse" and "decimal_contract (decimals lib) neg coeff"
    and "rfc3339_contract (format_rfc3339 lib)"
  shows "fate lib parse now p b = Crashed \<longleftrightarrow>
    (\<exists>bs t c s. b = Some bs \<and> parse bs = Some t \<and>
       text_to_clef False lib now (with_raw (raw_payload p) bs t) = Ok c \<and>
       cm_timestamp c = Some (Timestamp s) \<and> \<not> printable_time s)"
proof (cases "Option.bind b (\<lambda>bs. map_option (with_raw (raw_payload p) bs) (parse bs))")
  case None
  then show ?thesis by (cases b) (auto simp: fate_def)
next
  case (Some t)
  then obtain bs t0 where b: "b = Some bs" "parse bs = Some t0" "t = with_raw (raw_payload p) bs t0"
    by (auto simp: bind_eq_Some_conv)
  obtain c where c: "text_to_clef False lib now t = Ok c"
    using to_clef_release_Ok [OF assms(2)] by blast
  obtain s where s: "cm_timestamp c = Some (Timestamp s)"
    using to_clef_dated [OF c] by (metis not_None_eq timestamp.exhaust)
  have "\<exists>line. clef_to_string lib ms = Some line" for ms
    using assms(1) by (simp add: serde_contract_def)
  with clef_members_written [OF assms(3) s] b c s show ?thesis
    by (cases "printable_time s") (auto simp: fate_def split: option.splits)
qed

text \<open>A timestamp from the year 10000 on crashes.\<close>

lemma far_future_crashes:
  assumes "serde_contract lib parse" and dec: "decimal_contract (decimals lib) neg coeff"
    and "rfc3339_contract (format_rfc3339 lib)" and t: "parse bs = Some t"
    and plain: "gm_short_message t = [] \<or> hd (gm_short_message t) \<noteq> CHR ''{''"
    and ts: "gm_timestamp t = Some x" "\<not> neg x" "unat (dec_scale (decimals lib) x) \<le> 9"
    and far: "253402300800 * 10 ^ unat (dec_scale (decimals lib) x) \<le> coeff x"
    and range: "coeff x div 10 ^ unat (dec_scale (decimals lib) x) < 2 ^ 63"
  shows "fate lib parse now p (Some bs) = Crashed"
proof -
  let ?t = "with_raw (raw_payload p) bs t" and ?s = "unat (dec_scale (decimals lib) x)"
  have same: "gm_timestamp ?t = Some x" "gm_short_message ?t = gm_short_message t"
    using ts(1) by (auto simp: with_raw_def add_def split: option.splits json.splits)
  obtain c where c: "text_to_clef False lib now ?t = Ok c"
    using to_clef_release_Ok [OF dec] by blast
  have "cm_timestamp c = Some (Timestamp (int (coeff x * 10 ^ (9 - ?s))))"
    using plain_timestamp [OF c _ same(1) from_decimal_short [OF dec ts(2,3) range, of False]] plain same(2)
    by simp
  moreover have "253402300800 * 10 ^ ?s * 10 ^ (9 - ?s) \<le> coeff x * 10 ^ (9 - ?s)"
    using far by simp
  then have "253402300800 * 1000000000 \<le> coeff x * 10 ^ (9 - ?s)"
    using ts(3) by (simp add: mult.assoc flip: power_add)
  then have "\<not> printable_time (int (coeff x * 10 ^ (9 - ?s)))"
    unfolding printable_time_def by linarith
  ultimately show ?thesis
    using fate_Crashed_iff [OF assms(1-3)] t c by blast
qed

section \<open>The interface of a message to the processor\<close>

text \<open>
  A type of messages with \<open>MemRead\<close> whose readable messages have bytes. Two readable
  messages with the same bytes are processed alike.
\<close>

locale mem_reader =
  fixes mr :: "('b, 'r) mem_read"
    and body :: "'b \<Rightarrow> bytes"
    and readable :: "'b \<Rightarrow> bool"
  assumes readable_reads: "readable m \<Longrightarrow> reads_as mr m (body m)"
begin

lemma processed:
  assumes "parsers_agree lib parse" and "readable m" and "parse (body m) = Some t"
  shows "with_clef dbg lib now mr p m with_event d w =
    Some (handle_event with_event (increment (Process M_msg) d) w
      (text_to_clef dbg lib now (with_raw (raw_payload p) (body m) t)))"
  by (rule with_clef_parsed [OF assms(1) readable_reads [OF assms(2)] assms(3)])

lemma refused:
  assumes "parsers_agree lib parse" and "readable m" and "parse (body m) = None"
  shows "\<exists>e. with_clef dbg lib now mr p m with_event d w =
    Some (increment (Process M_msg) d, w, Err e)"
  by (rule with_clef_refused [OF assms(1) readable_reads [OF assms(2)] assms(3)])

lemma same_body_same_event:
  assumes "parsers_agree lib parse" and "readable m" and "readable m'" and "body m = body m'"
    and "parse (body m) \<noteq> None"
  shows "with_clef dbg lib now mr p m with_event d w = with_clef dbg lib now mr p m' with_event d w"
  using assms by (auto simp: processed)

end

text \<open>Messages of the receiver, and slices.\<close>

definition message_mem :: "('g, 'z) inflate \<Rightarrow> (message, ('g, 'z) reader) mem_read" where
  "message_mem lib = \<lparr>mr_bytes = message_bytes, mr_into_reader = into_reader lib,
     mr_read = reader_read lib\<rparr>"

definition slice_mem :: "(bytes, cursor) mem_read" where
  "slice_mem = \<lparr>mr_bytes = slice_bytes, mr_into_reader = slice_into_reader, mr_read = cursor_read\<rparr>"

interpretation message_mem: mem_reader "message_mem lib" message_body "\<lambda>m. message_compression m = None"
proof
  fix m
  assume c: "message_compression m = None"
  show "reads_as (message_mem lib) m (message_body m)"
  proof (cases "message_bytes m")
    case None
    have "reads_all (reader_read lib) (Uncompressed \<lparr>cr_chunk = 0, cr_cursor = 0, cr_msg = m\<rparr>)
        (message_body m)"
      by (simp add: reads_all_def rd.read_to_end_total cr_inv_start cr_remaining_start)
    with None c show ?thesis
      by (simp add: reads_as_def message_mem_def into_reader_def)
  next
    case (Some bs)
    with c have "bs = message_body m"
      by (cases m) (auto split: option.splits)
    with Some show ?thesis by (simp add: reads_as_def message_mem_def)
  qed
qed

interpretation slice_mem: mem_reader slice_mem "\<lambda>bs. bs" "\<lambda>_. True"
  by unfold_locales (simp add: reads_as_def slice_mem_def slice_bytes_def)


lemma last_of_sorted:
  assumes "sorted_wrt (<) (map fst xs)" and "(k, v) \<in> set xs"
    and "\<forall>k' \<in> fst ` set xs. k' \<le> (k :: 'k::linorder)"
  shows "last xs = (k, v)"
  using assms
proof (induction xs)
  case (Cons x xs)
  show ?case
  proof (cases "xs = []")
    case False
    then have "x \<noteq> (k, v)"
      using Cons.prems(1,3) by (cases xs) fastforce+
    with Cons False show ?thesis by auto
  qed (use Cons.prems in auto)
qed simp

lemma bt_insert_new_mem: "bt_wf o' \<Longrightarrow> (k, v) \<in> set (bt_insert k v o')"
  by (induction k v o' rule: bt_insert.induct) (auto simp: bt_wf_Cons)

lemma written_payload:
  "gm_additional t = Some (JObject fs) \<Longrightarrow>
   written k (payload t) = map snd (filter (\<lambda>(k', _). strip_underscore k' = k) fs)"
  by (simp add: payload_def additional_def written_def filter_map comp_def case_prod_unfold)

lemma last_written_raw:
  assumes "bt_wf fs"
  shows "last (written ''raw_payload'' (payload
      (t\<lparr>gm_additional := Some (JObject (bt_insert ''raw_payload'' v fs))\<rparr>))) = v \<and>
    written ''raw_payload'' (payload
      (t\<lparr>gm_additional := Some (JObject (bt_insert ''raw_payload'' v fs))\<rparr>)) \<noteq> []"
proof -
  let ?fs = "bt_insert ''raw_payload'' v fs"
  let ?xs = "filter (\<lambda>(k', _). strip_underscore k' = ''raw_payload'') ?fs"
  have mem: "(''raw_payload'', v) \<in> set ?xs"
    using bt_insert_new_mem [OF assms] by (simp add: strip_underscore_def)
  have "sorted_wrt (<) (map fst ?xs)"
    using bt_wf_insert [OF assms, of "''raw_payload''" v]
    by (simp add: bt_wf_def sorted_wrt_map sorted_wrt_filter)
  moreover have "k' \<le> ''raw_payload''" if "strip_underscore k' = ''raw_payload''" for k'
  proof -
    have "k' = ''raw_payload'' \<or> k' = ''_raw_payload''"
      using that by (cases k') (auto simp: strip_underscore_def split: if_splits)
    then show ?thesis by (auto simp: less_eq_char_def less_char_def)
  qed
  ultimately have "last ?xs = (''raw_payload'', v)"
    using mem by (intro last_of_sorted) auto
  moreover have "?xs \<noteq> []" using mem by (metis empty_iff empty_set)
  ultimately show ?thesis
    by (simp add: written_payload last_map)
qed

lemma raw_payload_member:
  assumes "text_to_clef dbg lib now (with_raw True bs t) = Ok c"
    and "gm_additional t = Some (JObject fs)" and "bt_wf fs"
    and "bt_get fs ''raw_payload'' = None"
  shows "sm_get (cm_additional c) ''raw_payload'' = Some (JString (chars bs))"
proof -
  let ?t = "t\<lparr>gm_additional := Some (JObject (bt_insert ''raw_payload'' (JString (chars bs)) fs))\<rparr>"
  have t: "with_raw True bs t = ?t"
    using assms(2,4) by (simp add: with_raw_def add_def)
  have "written ''raw_payload'' (envelope lib (\<lambda>s. s) (\<lambda>s. s) ?t) = []"
    using envelope_keys [of lib "\<lambda>s. s" "\<lambda>s. s" ?t] by (auto simp: written_Nil_iff)
  then show ?thesis
    using last_written_raw [OF assms(3), of "JString (chars bs)" t]
    by (simp add: to_clef_additional [OF assms(1)] t get_override_all dunder_def written_append Let_def)
qed

section \<open>Sample parsers\<close>

definition sample_parse :: "bytes \<Rightarrow> (string, string, bool \<times> nat \<times> nat, nat) gelf_message option" where
  "sample_parse bs = (if valid_utf8 bs then Some (sample_message (chars bs)) else None)"

definition no_inflate :: "(unit, unit) inflate" where
  "no_inflate = \<lparr>gzip_new = (\<lambda>_. Err (Io OtherKind ''gzip'')), gzip_read = (\<lambda>g n. (g, Ok [])),
     zlib_new = (\<lambda>_. Err (Io OtherKind ''zlib'')), zlib_read = (\<lambda>z n. (z, Ok []))\<rparr>"

text \<open>Without decompressors the messages that say they are compressed cannot be read.\<close>

definition plain_body :: "message \<Rightarrow> bytes option" where
  "plain_body m = (if message_compression m = None then Some (message_body m) else None)"

lemma no_inflate_contents: "contents (message_mem no_inflate) m (plain_body m)"
proof (cases "message_compression m")
  case None
  then show ?thesis
    using message_mem.readable_reads by (simp add: contents_def plain_body_def)
next
  case (Some c)
  then have "message_bytes m = None" by (cases m) auto
  with Some show ?thesis
    by (cases c) (simp_all add: contents_def plain_body_def unreadable_def message_mem_def into_reader_def
        no_inflate_def)
qed

lemma sample_parsers_agree:
  "parsers_agree (sample_library :: (string, bool \<times> nat \<times> nat, nat, ('g, 'z) reader) process_lib) sample_parse"
proof -
  have "message_texts str_text str_text (sample_message (Borrowed s)) = sample_message s"
    "message_texts r (\<lambda>s. s) (sample_message s) = sample_message s" for s and r :: "'a \<Rightarrow> string"
    by (simp_all add: message_texts_def sample_message_def)
  moreover have "read_to_end rd (\<lambda>_. 32) r [] = Some (Ok bs)" if "reads_all rd r bs"
    for rd :: "('g, 'z) reader \<Rightarrow> nat \<Rightarrow> ('g, 'z) reader \<times> bytes result" and r bs
    using that by (simp add: reads_all_def)
  ultimately show ?thesis
    by (auto simp: parsers_agree_def sample_parse_def sample_lib_def parses_def)
qed

lemma sample_contracts:
  "serde_contract (sample_library :: (string, bool \<times> nat \<times> nat, nat, ('g, 'z) reader) process_lib) sample_parse"
  "decimal_contract (decimals (sample_library :: (string, bool \<times> nat \<times> nat, nat, ('g, 'z) reader) process_lib))
     fst (\<lambda>(n, c, s). c)"
  "rfc3339_contract (format_rfc3339 (sample_library :: (string, bool \<times> nat \<times> nat, nat, ('g, 'z) reader) process_lib))"
proof -
  have "\<exists>e. read_to_end rd (\<lambda>_. 32) r [] = Some (Err e)" if "fails_all rd r"
    for rd :: "('g, 'z) reader \<Rightarrow> nat \<Rightarrow> ('g, 'z) reader \<times> bytes result" and r
    using that by (simp add: fails_all_def)
  then show "serde_contract (sample_library :: (string, bool \<times> nat \<times> nat, nat, ('g, 'z) reader) process_lib) sample_parse"
    using sample_parsers_agree by (fastforce simp: serde_contract_def sample_lib_def)
qed (simp_all add: sample_lib_def sample_decimal_contract sample_rfc3339)

lemma valid_utf8_ascii: "list_all (\<lambda>b. b < 0x80) bs \<Longrightarrow> valid_utf8 bs"
proof (induction bs)
  case (Cons b bs)
  then show ?case
    by (simp add: valid_utf8.simps [of "b # bs"] Let_def sequence_length_def)
qed (simp add: valid_utf8.simps)

section \<open>Properties\<close>

text \<open>
  C12: processing does not see how a message arrived. Take two uncompressed messages with the
  same bytes, one in a single datagram and the other in any number of chunks. If the bytes
  parse, the messages are processed alike: the same counter, the same line on standard
  output, the same outcome. If they do not, both are counted and refused without output; the
  errors may have different texts.
\<close>

theorem chunking_invisible:
  assumes "parsers_agree lib parse"
    and "message_compression m = None" and "message_compression m' = None"
    and "message_body m = message_body m'"
  shows "if parse (message_body m) \<noteq> None
    then read_as_clef dbg lib now (message_mem z) p m d out = read_as_clef dbg lib now (message_mem z) p m' d out
    else \<exists>e e'. read_as_clef dbg lib now (message_mem z) p m d out = Some (increment (Process M_msg) d, out, Err e) \<and>
      read_as_clef dbg lib now (message_mem z) p m' d out = Some (increment (Process M_msg) d, out, Err e')"
proof (cases "parse (message_body m)")
  case None
  with message_mem.refused [where with_event = "print_clef lib", OF assms(1,2)]
    message_mem.refused [where with_event = "print_clef lib", OF assms(1,3)] assms(4) show ?thesis
    by (simp add: read_as_clef_def)
next
  case (Some t)
  with message_mem.same_body_same_event [OF assms(1-4)] show ?thesis
    by (simp add: read_as_clef_def)
qed

theorem chunking_invisible_witness:
  "read_as_clef False sample_lib 9 (message_mem no_inflate) (process_new \<lparr>include_raw_payload = True\<rparr>)
     (Chunked [[104], [105, 33]]) (initial_diag 0) [] =
   read_as_clef False sample_lib 9 (message_mem no_inflate) (process_new \<lparr>include_raw_payload = True\<rparr>)
     (Single None [104, 105, 33]) (initial_diag 0) []"
  using chunking_invisible [OF sample_parsers_agree, of "Chunked [[104], [105, 33]]" "Single None [104, 105, 33]"]
  by (simp add: sample_parse_def peek_magic_bytes_def detect_def valid_utf8_ascii)

text \<open>
  C13: what the processor does with a message, in a release build. The message is counted
  once. If it cannot be read, as when its compressed data is damaged, or its bytes do not
  parse, the result is an error and nothing is printed. If they parse, there is an event with
  a time. When that time is printable, from 1970 to the year 9999, exactly one line is
  appended to standard output, the event's; when it is not, the processor panics and prints
  nothing.
\<close>

theorem processor_prints:
  assumes "serde_contract lib parse" and "decimal_contract (decimals lib) neg coeff"
    and "rfc3339_contract (format_rfc3339 lib)" and "contents mr m b"
  shows "case Option.bind b parse of
      None \<Rightarrow> \<exists>e. read_as_clef False lib now mr p m d out = Some (increment (Process M_msg) d, out, Err e)
    | Some t \<Rightarrow> \<exists>c s. text_to_clef False lib now (with_raw (raw_payload p) (the b) t) = Ok c \<and>
        cm_timestamp c = Some (Timestamp s) \<and>
        (if printable_time s
         then \<exists>ms line. clef_members (format_rfc3339 lib) c = Ok ms \<and> clef_to_string lib ms = Some line \<and>
           read_as_clef False lib now mr p m d out = Some (increment (Process M_msg) d, out @ [line], Ok ())
         else \<exists>q. read_as_clef False lib now mr p m d out = Some (increment (Process M_msg) d, out, Panic q))"
proof (cases "Option.bind b parse")
  case None
  then have "fate lib parse now p b = Refused" by (cases b) (auto simp: fate_def)
  with read_as_clef_fate [OF assms, of now p d out] None show ?thesis by auto
next
  case (Some t)
  then obtain bs where bs: "b = Some bs" "parse bs = Some t" by (auto simp: bind_eq_Some_conv)
  have "reads_as mr m bs" using assms(4) bs(1) by (simp add: contents_def)
  from read_as_clef_event [OF assms(1-3) this bs(2), of now p d out] Some bs show ?thesis
    by (fastforce split: if_splits)
qed

theorem processor_prints_witness:
  "(\<exists>line. read_as_clef False sample_lib 9 (message_mem no_inflate) (process_new default_process_config)
       (Single None [104, 105]) (initial_diag 0) [] =
     Some (increment (Process M_msg) (initial_diag 0), [line], Ok ())) \<and>
   (\<exists>e. read_as_clef False sample_lib 9 (message_mem no_inflate) (process_new default_process_config)
       (Single (Some Gzip) [0x1f, 0x8b]) (initial_diag 0) [] =
     Some (increment (Process M_msg) (initial_diag 0), [], Err e))"
proof
  let ?p = "process_new default_process_config"
  note prints = processor_prints [OF sample_contracts no_inflate_contents, of 9 ?p _ "initial_diag 0" "[]"]
  have raw: "\<not> raw_payload ?p" by (simp add: process_new_def default_process_config_def)
  have "sample_parse [104, 105] = Some (sample_message ''hi'')"
  proof -
    have "chars [104, 105] = ''hi''" by code_simp
    then show ?thesis by (simp add: sample_parse_def valid_utf8_ascii)
  qed
  with prints [of "Single None [104, 105]"]
  obtain c s where c: "text_to_clef False sample_lib 9 (sample_message ''hi'') = Ok c" "cm_timestamp c = Some (Timestamp s)"
    and run: "printable_time s \<Longrightarrow> \<exists>line. read_as_clef False sample_lib 9 (message_mem no_inflate) ?p
      (Single None [104, 105]) (initial_diag 0) [] = Some (increment (Process M_msg) (initial_diag 0), [line], Ok ())"
    by (auto simp: plain_body_def raw with_raw_def split: if_splits)
  have "from_decimal False (decimals sample_lib) (False, 15, 1) = Ok (Some (Timestamp 1500000000))"
    using from_decimal_short [OF sample_contracts(2), of "(False, 15, 1)" False]
    by (simp add: sample_lib_def sample_decimal_def)
  from plain_timestamp [OF c(1) _ _ this] c(2) have "printable_time s"
    by (simp add: sample_message_def printable_time_def)
  with run show "\<exists>line. read_as_clef False sample_lib 9 (message_mem no_inflate) ?p
      (Single None [104, 105]) (initial_diag 0) [] = Some (increment (Process M_msg) (initial_diag 0), [line], Ok ())"
    by blast
  show "\<exists>e. read_as_clef False sample_lib 9 (message_mem no_inflate) ?p
       (Single (Some Gzip) [0x1f, 0x8b]) (initial_diag 0) [] =
     Some (increment (Process M_msg) (initial_diag 0), [], Err e)"
    using prints [of "Single (Some Gzip) [0x1f, 0x8b]"] by (simp add: plain_body_def)
qed

text \<open>
  C36: the raw payload is in the event when it is asked for. Let a message be read, from a
  slice or through a reader, in a release build with raw payloads. If its bytes parse to a
  message that has additional fields but none named \<open>raw_payload\<close>, the event that is handed
  on has the whole text of the message as its member \<open>raw_payload\<close>, even when there is a
  field \<open>_raw_payload\<close>, which then moves aside.
\<close>

theorem raw_payload_included:
  assumes "parsers_agree lib parse" and "decimal_contract (decimals lib) neg coeff"
    and "reads_as mr m bs" and "parse bs = Some t" and "raw_payload p"
    and "gm_additional t = Some (JObject fs)" and "bt_wf fs" and "bt_get fs ''raw_payload'' = None"
    and "with_clef False lib now mr p m with_event d w = Some (d', w', r)"
  shows "\<exists>c. with_event c w = (w', r) \<and>
    sm_get (cm_additional c) ''raw_payload'' = Some (JString (chars bs))"
proof -
  obtain c where c: "text_to_clef False lib now (with_raw True bs t) = Ok c"
    using to_clef_release_Ok [OF assms(2)] by blast
  from with_clef_parsed [OF assms(1,3,4), of False now p with_event d w] assms(5,9) c
  have "with_event c w = (w', r)" by (auto simp: handle_event_def split: prod.splits)
  with raw_payload_member [OF c assms(6-8)] show ?thesis by blast
qed

theorem raw_payload_included_witness:
  "\<exists>w' c. with_clef False sample_lib 9 (message_mem no_inflate) (process_new \<lparr>include_raw_payload = True\<rparr>)
       (Chunked [[104], [105]]) (\<lambda>c w. (w @ [c], Ok ())) (initial_diag 0) [] =
     Some (increment (Process M_msg) (initial_diag 0), w', Ok ()) \<and> w' = [c] \<and>
     sm_get (cm_additional c) ''raw_payload'' = Some (JString (chars [104, 105]))"
proof -
  let ?p = "process_new \<lparr>include_raw_payload = True\<rparr>" and ?f = "\<lambda>c w. (w @ [c], Ok ())"
  have reads: "reads_as (message_mem no_inflate) (Chunked [[104], [105]]) [104, 105]"
    using message_mem.readable_reads [of "Chunked [[104], [105]]" no_inflate] by (simp add: peek_magic_bytes_def)
  have parse: "sample_parse [104, 105] = Some (sample_message (chars [104, 105]))"
    by (simp add: sample_parse_def valid_utf8_ascii)
  obtain c0 where c0: "text_to_clef False sample_lib 9 (with_raw True [104, 105] (sample_message (chars [104, 105]))) = Ok c0"
    using sample_to_clef_Ok by blast
  have run: "with_clef False sample_lib 9 (message_mem no_inflate) ?p (Chunked [[104], [105]]) ?f (initial_diag 0) [] =
      Some (increment (Process M_msg) (initial_diag 0), [c0], Ok ())"
    using with_clef_parsed [OF sample_parsers_agree reads parse, of False 9 ?p ?f "initial_diag 0" "[]"] c0
    by (simp add: process_new_def handle_event_def)
  show ?thesis
    using raw_payload_included [OF sample_parsers_agree sample_contracts(2) reads parse _ _ _ _ run] run
    by (simp add: process_new_def sample_message_def bt_wf_def bt_get_def less_char_def)
qed

end
