(* ===== verification/Server_Props.thy ===== *)
theory Server_Props
  imports Server Process_Run
begin

text \<open>
  The server loop against the interface of the processor: a message has a fate, printed,
  refused or crashed, and the processor leaves the level and the server's counters alone.
  The loop is shown to survive every message that is printed or refused and every error of a
  chunk, to stop where it has to, and to count what it does.
\<close>

section \<open>Events\<close>

text \<open>Events that end the loop by themselves, and messages that crash.\<close>

fun ends :: "server_event \<Rightarrow> bool" where
  "ends (Incoming (Some (Ok _))) = False"
| "ends _ = True"

fun complete_of :: "server_event \<Rightarrow> message list" where
  "complete_of (Incoming (Some (Ok (Complete m)))) = [m]"
| "complete_of _ = []"

definition crashes :: "(message \<Rightarrow> fate) \<Rightarrow> server_event \<Rightarrow> bool" where
  "crashes f ev \<longleftrightarrow> (\<exists>m \<in> set (complete_of ev). f m = Crashed)"

definition stops :: "(message \<Rightarrow> fate) \<Rightarrow> server_event \<Rightarrow> bool" where
  "stops f ev \<longleftrightarrow> ends ev \<or> crashes f ev"

definition served :: "(message \<Rightarrow> fate) \<Rightarrow> server_event list \<Rightarrow> server_event list" where
  "served f evs = takeWhile (\<lambda>ev. \<not> stops f ev) evs"

definition messages_of :: "server_event list \<Rightarrow> message list" where
  "messages_of evs = concat (map complete_of evs)"

text \<open>How the loop ends at an event, and that it goes on without one.\<close>

fun ends_with :: "server_event option \<Rightarrow> control \<Rightarrow> bool" where
  "ends_with None ctl = (ctl = Continue)"
| "ends_with (Some (Incoming (Some (Ok _)))) ctl = (\<exists>q. ctl = Unwind q)"
| "ends_with (Some (Incoming (Some (Panic q)))) ctl = (ctl = Unwind q)"
| "ends_with (Some (Incoming None)) ctl = (ctl = Unwind (Panic_str
     ''internal error: entered unreachable code: receiver stream should never terminate''))"
| "ends_with (Some _) ctl = (ctl = Break)"

text \<open>How a run over messages ends.\<close>

definition run_ends :: "fate list \<Rightarrow> control \<Rightarrow> bool" where
  "run_ends fs ctl \<longleftrightarrow> (if Crashed \<in> set fs then \<exists>q. ctl = Unwind q else ctl = Continue)"

text \<open>What an event adds to a counter of the server.\<close>

fun is_error :: "server_event \<Rightarrow> bool" where
  "is_error (Incoming (Some (Ok (Received_error _)))) = True"
| "is_error (Incoming (Some (Err _))) = True"
| "is_error _ = False"

definition counts :: "(message \<Rightarrow> fate) \<Rightarrow> server_metric \<Rightarrow> server_event \<Rightarrow> nat" where
  "counts f s ev =
     (case s of
        M_receive_ok \<Rightarrow> length (complete_of ev)
      | M_process_ok \<Rightarrow> length (filter (\<lambda>m. \<exists>line. f m = Printed line) (complete_of ev))
      | M_process_err \<Rightarrow> length (filter (\<lambda>m. f m = Refused) (complete_of ev))
      | M_receive_err \<Rightarrow> if is_error ev then 1 else 0
      | _ \<Rightarrow> 0)"

text \<open>An event that does not end the loop is a message, a chunk, or an error of a message.\<close>

lemma not_ends_cases:
  assumes "\<not> ends ev"
  obtains m where "ev = Incoming (Some (Ok (Complete m)))"
    | "ev = Incoming (Some (Ok Incomplete))"
    | e where "ev = Incoming (Some (Ok (Received_error e)))"
  using assms by (cases ev rule: ends.cases) (auto, metis received.exhaust)

lemma messages_of_simps [simp]:
  "messages_of [] = []" "messages_of (ev # evs) = complete_of ev @ messages_of evs"
  "messages_of (evs @ evs') = messages_of evs @ messages_of evs'"
  by (simp_all add: messages_of_def)

lemma served_Cons:
  "served f [] = []" "stops f ev \<Longrightarrow> served f (ev # evs) = []"
  "\<not> stops f ev \<Longrightarrow> served f (ev # evs) = ev # served f evs"
  by (simp_all add: served_def)

lemma ends_with_Continue: "ends_with (Some ev) ctl \<Longrightarrow> ctl \<noteq> Continue"
  by (cases "(Some ev, ctl)" rule: ends_with.cases) auto

lemma served_not_crashed: "m \<in> set (messages_of (served f evs)) \<Longrightarrow> f m \<noteq> Crashed"
  by (auto simp: messages_of_def served_def stops_def crashes_def dest!: set_takeWhileD)

section \<open>The interface of the processor\<close>

locale processor =
  fixes process :: "'w process_fn"
    and fate_of :: "message \<Rightarrow> fate"
    and sound :: "message \<Rightarrow> bool"
  assumes returns: "sound m \<Longrightarrow> \<exists>d' w' r. process m d w = Some (d', w', r) \<and> fits (fate_of m) r"
    and frame: "process m d w = Some (d', w', r) \<Longrightarrow>
      level_cell d' = level_cell d \<and> installed d' = installed d \<and>
      accounted (Server s) d' = accounted (Server s) d"
begin

text \<open>A turn of the loop: how it ends, and what it counts.\<close>

lemma step_counts:
  assumes sound: "\<forall>m \<in> set (complete_of ev). sound m" and run: "server_step process ev d w = (d', w', ctl)"
  shows "if stops fate_of ev then ends_with (Some ev) ctl else ctl = Continue"
    and "level_cell d' = level_cell d" and "installed d' = installed d"
    and "level_cell d = 0 \<Longrightarrow> accounted (Server s) d' = accounted (Server s) d + of_nat (counts fate_of s ev)"
proof -
  have all: "(if stops fate_of ev then ends_with (Some ev) ctl else ctl = Continue) \<and>
    level_cell d' = level_cell d \<and> installed d' = installed d \<and> (level_cell d = 0 \<longrightarrow>
      accounted (Server s) d' = accounted (Server s) d + of_nat (counts fate_of s ev))"
  proof (cases "ends ev")
    case True
    then show ?thesis
      using run by (cases ev rule: ends.cases)
        (auto simp: stops_def counts_def split: server_metric.splits)
  next
    case False
    then show ?thesis
    proof (cases ev rule: not_ends_cases)
      case (1 m)
      obtain d1 w1 r where p: "process m (increment (Server M_receive_ok) d) w = Some (d1, w1, r)"
        and r: "fits (fate_of m) r"
        using returns [of m "increment (Server M_receive_ok) d" w] sound 1 by auto
      note f = frame [OF p]
      show ?thesis
        using r run p f 1 by (cases "fate_of m")
          (auto simp: stops_def crashes_def counts_def Let_def split: server_metric.splits)
    qed (use run in \<open>auto simp: stops_def crashes_def counts_def split: server_metric.splits\<close>)
  qed
  show "if stops fate_of ev then ends_with (Some ev) ctl else ctl = Continue"
    "level_cell d' = level_cell d" "installed d' = installed d"
    "level_cell d = 0 \<Longrightarrow> accounted (Server s) d' = accounted (Server s) d + of_nat (counts fate_of s ev)"
    using all by blast+
qed

text \<open>A turn leaves the level and the counters of the connections alone, however it ends.\<close>

lemma step_frame:
  assumes "server_step process ev d w = (d', w', ctl)"
    and "s \<notin> {M_receive_ok, M_receive_err, M_process_ok, M_process_err}"
  shows "level_cell d' = level_cell d \<and> installed d' = installed d \<and>
    accounted (Server s) d' = accounted (Server s) d"
proof (cases "ends ev")
  case True
  have "d' = d \<or> (\<exists>t. d' = emit t d) \<or> (\<exists>e t. d' = emit_err e t (increment (Server M_receive_err) d))"
    using assms(1) True by (cases ev rule: ends.cases) auto
  with assms(2) show ?thesis by (auto simp: accounted_increment_other)
next
  case False
  then show ?thesis
  proof (cases ev rule: not_ends_cases)
    case (1 m)
    show ?thesis
    proof (cases "process m (increment (Server M_receive_ok) d) w")
      case None
      with assms 1 show ?thesis by (auto simp: accounted_increment_other)
    next
      case (Some x)
      then obtain d1 w1 r where p: "process m (increment (Server M_receive_ok) d) w = Some (d1, w1, r)"
        by (cases x) auto
      have "d' = d1 \<or> d' = increment (Server M_process_ok) d1 \<or>
          (\<exists>e t. d' = emit_err e t (increment (Server M_process_err) d1))"
        using assms(1) 1 p by (cases r) auto
      with frame [OF p, of s] assms(2) show ?thesis by (auto simp: accounted_increment_other)
    qed
  qed (use assms in \<open>auto simp: accounted_increment_other\<close>)
qed

lemma loop_frame:
  "server_loop process evs d w = (d', w', ctl) \<Longrightarrow> level_cell d' = level_cell d \<and> installed d' = installed d"
proof (induction evs arbitrary: d w)
  case (Cons ev evs)
  obtain d1 w1 ctl1 where step: "server_step process ev d w = (d1, w1, ctl1)" by (metis prod_cases3)
  from step_frame [OF step, of M_tcp_conn_accept] Cons.IH [of d1 w1] Cons.prems step show ?case
    by (cases ctl1) auto
qed simp

text \<open>Where the loop is after a sequence of events.\<close>

lemma loop_run:
  assumes sound: "\<forall>m. sound m" and "server_loop process evs d w = (d', w', ctl)"
  shows "ends_with (find (stops fate_of) evs) ctl \<and> level_cell d' = level_cell d \<and> installed d' = installed d"
  using assms(2)
proof (induction evs arbitrary: d w)
  case (Cons ev evs)
  obtain d1 w1 ctl1 where step: "server_step process ev d w = (d1, w1, ctl1)" by (metis prod_cases3)
  have all: "\<forall>m \<in> set (complete_of ev). sound m" using sound by blast
  note turn = step_counts(1-3) [OF all step]
  show ?case
  proof (cases "stops fate_of ev")
    case True
    with turn have "ends_with (Some ev) ctl1" by simp
    with Cons.prems step True turn show ?thesis
      by (cases ctl1) (auto dest: ends_with_Continue)
  next
    case False
    with Cons.IH [of d1 w1] Cons.prems step turn show ?thesis by simp
  qed
qed simp

end

text \<open>
  The server beside the sampling thread: either the loop takes an event, or the thread takes
  a step. The state holds the events taken so far.
\<close>

inductive serve_step ::
  "'w process_fn \<Rightarrow> server_event list \<times> diag \<times> 'w \<times> control \<Rightarrow>
   server_event list \<times> diag \<times> 'w \<times> control \<Rightarrow> bool"
  for process where
  Serve: "server_step process ev d w = (d', w', ctl) \<Longrightarrow>
    serve_step process (evs, d, w, Continue) (evs @ [ev], d', w', ctl)"
| Sample: "serve_step process (evs, d, w, ctl) (evs, sampler_turn d, w, ctl)"

inductive_cases serve_stepE: "serve_step process (evs, d, w, ctl) s"

context processor
begin

lemma serve_counts:
  assumes "(serve_step process)\<^sup>*\<^sup>* ([], d, w, Continue) (evs, d', w', ctl)"
    and sound: "\<forall>m. sound m" and "level_cell d = 0" and "sampler_ok (installed d)"
  shows "level_cell d' = 0 \<and> sampler_ok (installed d') \<and>
    accounted (Server s) d' = accounted (Server s) d + of_nat (sum_list (map (counts fate_of s) evs))"
  using assms(1)
proof (induction "(evs, d', w', ctl)" arbitrary: evs d' w' ctl rule: rtranclp_induct)
  case base
  with assms(3,4) show ?case by simp
next
  case (step st)
  obtain evs1 d1 w1 ctl1 where st: "st = (evs1, d1, w1, ctl1)" by (metis prod_cases4)
  note IH = step.hyps(3) [OF st]
  from step.hyps(2) consider
    (serve) ev where "evs = evs1 @ [ev]" "server_step process ev d1 w1 = (d', w', ctl)"
  | (sample) "evs = evs1" "d' = sampler_turn d1"
    unfolding st by (auto elim!: serve_stepE)
  then show ?case
  proof cases
    case serve
    with IH step_counts(2-4) [OF _ serve(2)] sound show ?thesis by (simp add: add.assoc)
  next
    case sample
    with IH show ?thesis by (simp add: sampler_turn_ok accounted_sampler_turn)
  qed
qed

end

text \<open>
  A processor that prints: what it appends to the output is determined by the message.
\<close>

locale printer = processor process fate_of sound
  for process :: "string list process_fn" and fate_of and sound +
  assumes prints: "sound m \<Longrightarrow> process m d out = Some (d', out', r) \<Longrightarrow> out' = out @ fate_lines (fate_of m)"
begin

abbreviation lines :: "message \<Rightarrow> string list" where
  "lines m \<equiv> fate_lines (fate_of m)"

lemma step_output:
  assumes sound: "\<forall>m \<in> set (complete_of ev). sound m" and "server_step process ev d out = (d', out', ctl)"
  shows "out' = out @ concat (map lines (complete_of ev))"
proof (cases "ends ev")
  case True
  with assms(2) show ?thesis by (cases ev rule: ends.cases) auto
next
  case False
  then show ?thesis
  proof (cases ev rule: not_ends_cases)
    case (1 m)
    obtain d1 out1 r where p: "process m (increment (Server M_receive_ok) d) out = Some (d1, out1, r)"
      using returns [of m "increment (Server M_receive_ok) d" out] sound 1 by auto
    with assms(2) 1 prints [OF _ p] sound show ?thesis
      by (cases r) (auto simp: Let_def)
  qed (use assms(2) in auto)
qed

text \<open>An item of the stream: it is served, or it is a message that crashes and unwinds the loop.\<close>

lemma item_step:
  assumes sound: "\<forall>m \<in> set (complete_of (Incoming (Some (Ok x)))). sound m"
  obtains d' ctl where "server_step process (Incoming (Some (Ok x))) d out =
      (d', out @ concat (map lines (complete_of (Incoming (Some (Ok x))))), ctl)"
    and "run_ends (map fate_of (complete_of (Incoming (Some (Ok x))))) ctl"
proof -
  obtain d' out' ctl where step: "server_step process (Incoming (Some (Ok x))) d out = (d', out', ctl)"
    by (metis prod_cases3)
  have "run_ends (map fate_of (complete_of (Incoming (Some (Ok x))))) ctl"
    using step_counts(1) [OF sound step] by (force simp: stops_def crashes_def run_ends_def split: if_splits)
  with step step_output [OF sound step] that show thesis by blast
qed

lemma loop_output:
  assumes sound: "\<forall>m. sound m" and "server_loop process evs d out = (d', out', ctl)"
  shows "out' = out @ concat (map lines (messages_of (served fate_of evs)))"
  using assms(2)
proof (induction evs arbitrary: d out)
  case (Cons ev evs)
  obtain d1 out1 ctl1 where step: "server_step process ev d out = (d1, out1, ctl1)" by (metis prod_cases3)
  have all: "\<forall>m \<in> set (complete_of ev). sound m" using sound by blast
  note turn = step_counts(1) [OF all step] and out1 = step_output [OF all step]
  show ?case
  proof (cases "stops fate_of ev")
    case True
    then have "concat (map lines (complete_of ev)) = []"
      by (cases ev rule: complete_of.cases) (auto simp: stops_def crashes_def)
    with Cons.prems step turn out1 True show ?thesis
      by (cases ctl1) (auto simp: served_Cons dest: ends_with_Continue)
  next
    case False
    with Cons.IH [of d1 out1] Cons.prems step turn out1 show ?thesis by (simp add: served_Cons)
  qed
qed (simp add: served_def)

end

section \<open>The program's processor\<close>

text \<open>
  \<open>read_as_clef\<close> on the messages of the receiver, in a release build. \<open>now m\<close> is what the
  clock says when the message is processed.
\<close>

definition gelf_process ::
  "('c, 'd, 'n, ('g, 'z) reader) process_lib \<Rightarrow> ('g, 'z) inflate \<Rightarrow> (message \<Rightarrow> system_time) \<Rightarrow>
   process \<Rightarrow> string list process_fn" where
  "gelf_process lib z now p m d out = read_as_clef False lib (now m) (message_mem z) p m d out"

text \<open>
  The contracts of the libraries together: of the JSON library, of decimals, and of the writer
  of times; and of the decompressors, which give every message its bytes or fail: \<open>body\<close> says
  which.
\<close>

definition formats_ok ::
  "('c, 'd, 'n, 'r) process_lib \<Rightarrow> (bytes \<Rightarrow> (string, string, 'd, 'n) gelf_message option) \<Rightarrow> bool" where
  "formats_ok lib parse \<longleftrightarrow>
     serde_contract lib parse \<and> (\<exists>neg coeff. decimal_contract (decimals lib) neg coeff) \<and>
     rfc3339_contract (format_rfc3339 lib)"

definition libraries_ok ::
  "('c, 'd, 'n, ('g, 'z) reader) process_lib \<Rightarrow> (bytes \<Rightarrow> (string, string, 'd, 'n) gelf_message option) \<Rightarrow>
   ('g, 'z) inflate \<Rightarrow> (message \<Rightarrow> bytes option) \<Rightarrow> bool" where
  "libraries_ok lib parse z body \<longleftrightarrow>
     formats_ok lib parse \<and> (\<forall>m. contents (message_mem z) m (body m))"

lemma libraries_ok_all:
  "libraries_ok lib parse z body \<Longrightarrow> \<forall>m. formats_ok lib parse \<and> contents (message_mem z) m (body m)"
  by (simp add: libraries_ok_def)

lemma handle_event_diag: "fst (handle_event f d w r) = d"
  by (simp add: handle_event_def split: outcome.splits prod.splits)

lemma read_as_clef_diag:
  "read_as_clef dbg lib now mr p m d out = Some (d', out', r) \<Longrightarrow> d' = increment (Process M_msg) d"
  unfolding read_as_clef_def with_clef_handle
  by (auto split: option.splits dest!: arg_cong [of "handle_event _ _ _ _" _ fst]
      simp: handle_event_diag)

lemma gelf_process_fate:
  assumes "formats_ok lib parse \<and> contents (message_mem z) m b"
  shows "\<exists>r. gelf_process lib z now p m d out =
      Some (increment (Process M_msg) d, out @ fate_lines (fate lib parse (now m) p b), r) \<and>
    fits (fate lib parse (now m) p b) r"
  using assms read_as_clef_fate [of lib parse _ _ "message_mem z" m b "now m" p d out]
  by (auto simp: gelf_process_def formats_ok_def)

interpretation gelf_printer: printer "gelf_process lib z now p"
  "\<lambda>m. fate lib parse (now m) p (body m)" "\<lambda>m. formats_ok lib parse \<and> contents (message_mem z) m (body m)"
proof
  show "\<exists>d' out' r. gelf_process lib z now p m d out = Some (d', out', r) \<and>
      fits (fate lib parse (now m) p (body m)) r"
    if "formats_ok lib parse \<and> contents (message_mem z) m (body m)" for m d out
    using gelf_process_fate [OF that, of now p d out] by blast
  show "level_cell d' = level_cell d \<and> installed d' = installed d \<and>
      accounted (Server s) d' = accounted (Server s) d"
    if "gelf_process lib z now p m d out = Some (d', out', r)" for m d out d' out' r s
    using read_as_clef_diag [OF that [unfolded gelf_process_def]]
    by (simp add: accounted_increment_other)
  show "out' = out @ fate_lines (fate lib parse (now m) p (body m))"
    if "formats_ok lib parse \<and> contents (message_mem z) m (body m)"
      and "gelf_process lib z now p m d out = Some (d', out', r)"
    for m d out d' out' r
    using gelf_process_fate [OF that(1), of now p d out] that(2) by auto
qed

lemma sample_libraries_ok: "libraries_ok sample_lib sample_parse no_inflate plain_body"
  using sample_contracts no_inflate_contents by (auto simp: libraries_ok_def formats_ok_def)

text \<open>
  TLS is refused over UDP: whatever the network does, a configuration with a
  certificate and the UDP protocol makes the server report the error and return, without
  binding a socket, serving an event or printing anything.
\<close>

lemma tls_over_udp_refused:
  assumes "bind_protocol (server_bind (srv_config s)) = Udp"
    and "server_certificate (srv_config s) \<noteq> None"
  shows "run_server n process s events d w = (emit_err TlsOverUdp ''GELF server failed'' d, w, Break)"
  using assms by (simp add: run_server_def setup_incoming_def)

section \<open>Properties\<close>

text \<open>
  C9: which events the loop survives. In a release build the loop goes through every message,
  whether it is printed, does not parse or cannot even be decompressed, and through every
  error of a chunk. It stops at the first event that is something else: a closed handle, the
  termination signal and a fatal error of the stream end it regularly; the end of the stream,
  a panic in it, and a message whose event has a time that cannot be printed unwind it. (The
  last is the one way for a client to stop the server: a timestamp from the year 10000 on, as
  the second half of the witness has.)
\<close>

theorem server_survives:
  assumes "libraries_ok lib parse z body"
    and "server_loop (gelf_process lib z now p) evs d out = (d', out', ctl)"
  shows "ends_with (find (stops (\<lambda>m. fate lib parse (now m) p (body m))) evs) ctl"
  using gelf_printer.loop_run [OF libraries_ok_all [OF assms(1)] assms(2)] by blast

text \<open>The sample library for messages that say they are from the year 10000.\<close>

definition late_parse :: "bytes \<Rightarrow> (string, string, bool \<times> nat \<times> nat, nat) gelf_message option" where
  "late_parse bs = map_option (\<lambda>t. t\<lparr>gm_timestamp := Some (False, 253402300800, 0)\<rparr>) (sample_parse bs)"

definition late_lib :: "(string, bool \<times> nat \<times> nat, nat, (unit, unit) reader) process_lib" where
  "late_lib = sample_lib
     \<lparr>gelf_from_slice := (\<lambda>bs. outcome_bind (gelf_from_slice sample_lib bs)
        (\<lambda>t. Ok (t\<lparr>gm_timestamp := Some (False, 253402300800, 0)\<rparr>))),
      gelf_from_str := (\<lambda>s. outcome_bind (gelf_from_str sample_lib s)
        (\<lambda>t. Ok (t\<lparr>gm_timestamp := Some (False, 253402300800, 0)\<rparr>))),
      gelf_from_reader := (\<lambda>rd r. outcome_bind (gelf_from_reader sample_lib rd r)
        (\<lambda>t. Ok (t\<lparr>gm_timestamp := Some (False, 253402300800, 0)\<rparr>)))\<rparr>"

lemma parses_retimed:
  "parses s_ref m_ref r t \<Longrightarrow>
   parses s_ref m_ref (outcome_bind r (\<lambda>t. Ok (t\<lparr>gm_timestamp := x\<rparr>))) (map_option (\<lambda>t. t\<lparr>gm_timestamp := x\<rparr>) t)"
  by (cases t) (auto simp: parses_def message_texts_def)

lemma late_libraries_ok: "libraries_ok late_lib late_parse no_inflate plain_body"
proof -
  note sample = sample_contracts(1) [where 'g = unit and 'z = unit, unfolded serde_contract_def parsers_agree_def]
  have "parsers_agree late_lib late_parse"
    unfolding parsers_agree_def late_lib_def late_parse_def
    by (intro conjI allI impI) (use sample in \<open>auto intro!: parses_retimed\<close>)
  moreover have "\<exists>e. gelf_from_reader late_lib rd r = Err e" if "fails_all rd r" for rd r
    using sample that by (fastforce simp: late_lib_def)
  moreover have "clef_to_string late_lib = clef_to_string sample_lib" by (simp add: late_lib_def)
  ultimately have "serde_contract late_lib late_parse"
    using sample by (simp add: serde_contract_def)
  moreover have "decimals late_lib = decimals sample_lib" "format_rfc3339 late_lib = format_rfc3339 sample_lib"
    by (simp_all add: late_lib_def)
  ultimately show ?thesis
    using sample_contracts(2,3) [where 'g = unit and 'z = unit] no_inflate_contents
    by (auto simp: libraries_ok_def formats_ok_def)
qed

lemma sample_fate: "\<not> valid_utf8 bs \<Longrightarrow> fate sample_lib sample_parse 9 p (Some bs) = Refused"
  by (simp add: fate_def sample_parse_def)

lemma sample_fate_plain:
  assumes "chars bs = [] \<or> hd (chars bs) \<noteq> CHR ''{''"
  shows "fate (sample_library :: (string, bool \<times> nat \<times> nat, nat, ('g, 'z) reader) process_lib) sample_parse now p (Some bs) \<noteq> Crashed"
proof
  let ?lib = "sample_library :: (string, bool \<times> nat \<times> nat, nat, ('g, 'z) reader) process_lib"
  assume "fate ?lib sample_parse now p (Some bs) = Crashed"
  then obtain t c s where t: "sample_parse bs = Some t"
    and c: "text_to_clef False ?lib now (with_raw (raw_payload p) bs t) = Ok c"
    and s: "cm_timestamp c = Some (Timestamp s)" "\<not> printable_time s"
    using fate_Crashed_iff [OF sample_contracts] by blast
  have "from_decimal False (decimals ?lib) (False, 15, 1) = Ok (Some (Timestamp 1500000000))"
    using from_decimal_short [OF sample_contracts(2), of "(False, 15, 1)" False]
    by (simp add: sample_lib_def sample_decimal_def)
  moreover have "gm_timestamp (with_raw (raw_payload p) bs t) = Some (False, 15, 1)"
    "gm_short_message (with_raw (raw_payload p) bs t) = chars bs"
    using t by (auto simp: sample_parse_def sample_message_def with_raw_def add_def
        split: if_splits option.splits json.splits)
  ultimately have "cm_timestamp c = Some (Timestamp 1500000000)"
    using plain_timestamp [OF c] assms by simp
  with s show False by (simp add: printable_time_def)
qed

lemma late_fate: "fate late_lib late_parse 9 p (Some [104]) = Crashed"
proof -
  have "late_parse [104] = Some ((sample_message (chars [104]))\<lparr>gm_timestamp := Some (False, 253402300800, 0)\<rparr>)"
    by (simp add: late_parse_def sample_parse_def valid_utf8_ascii)
  moreover have "chars [104] = ''h''" by code_simp
  moreover have "serde_contract late_lib late_parse" "rfc3339_contract (format_rfc3339 late_lib)"
    using late_libraries_ok by (simp_all add: libraries_ok_def formats_ok_def)
  moreover have "decimals late_lib = sample_decimal" by (simp add: late_lib_def sample_lib_def)
  ultimately show ?thesis
    using far_future_crashes [of late_lib late_parse fst "\<lambda>(n, c, s). c" "[104]" _ "(False, 253402300800, 0)"]
      sample_decimal_contract
    by (simp add: sample_message_def sample_decimal_def)
qed

theorem server_survives_witness:
  "snd (snd (server_loop (gelf_process sample_lib no_inflate (\<lambda>_. 9) (process_new default_process_config))
     [Incoming (Some (Ok (Complete (Single None [255])))),
      Incoming (Some (Ok (Complete (Single (Some Gzip) [0x1f, 0x8b])))),
      Incoming (Some (Ok (Received_error HeaderTooSmall))), Ctrl_c] (initial_diag 0) [])) = Break \<and>
   (\<exists>q. snd (snd (server_loop (gelf_process late_lib no_inflate (\<lambda>_. 9) (process_new default_process_config))
     [Incoming (Some (Ok (Complete (Single None [104])))), Ctrl_c] (initial_diag 0) [])) = Unwind q)"
proof
  let ?p = "process_new default_process_config"
  have "\<not> valid_utf8 [255]" by (simp add: valid_utf8.simps sequence_length_def Let_def)
  note fates = sample_fate [OF this] and none = plain_body_def fate_def
  show "snd (snd (server_loop (gelf_process sample_lib no_inflate (\<lambda>_. 9) ?p)
     [Incoming (Some (Ok (Complete (Single None [255])))),
      Incoming (Some (Ok (Complete (Single (Some Gzip) [0x1f, 0x8b])))),
      Incoming (Some (Ok (Received_error HeaderTooSmall))), Ctrl_c] (initial_diag 0) [])) = Break"
    (is "snd (snd (server_loop ?process ?evs ?d [])) = Break")
  proof -
    obtain d' out' ctl where run: "server_loop ?process ?evs ?d [] = (d', out', ctl)" by (metis prod_cases3)
    have "fate sample_lib sample_parse 9 ?p None = Refused" by (simp add: fate_def)
    with server_survives [OF sample_libraries_ok run] run fates show ?thesis
      by (simp add: stops_def crashes_def plain_body_def)
  qed
  show "\<exists>q. snd (snd (server_loop (gelf_process late_lib no_inflate (\<lambda>_. 9) ?p)
     [Incoming (Some (Ok (Complete (Single None [104])))), Ctrl_c] (initial_diag 0) [])) = Unwind q"
    (is "\<exists>q. snd (snd (server_loop ?process ?evs ?d [])) = Unwind q")
  proof -
    obtain d' out' ctl where run: "server_loop ?process ?evs ?d [] = (d', out', ctl)" by (metis prod_cases3)
    with server_survives [OF late_libraries_ok run] late_fate [of ?p] show ?thesis
      by (simp add: stops_def crashes_def plain_body_def)
  qed
qed

text \<open>
  C19: the counters of the server are right, whatever the sampling thread does. Let the loop
  take any events in a release build while the thread reads and prints the counters at any
  moments, from fresh globals at the debug level (at the other level nothing is counted).
  Then the counts, printed or not, are: the complete messages taken as received, those
  printed as processed, those refused, which did not parse or could not be read, as failed,
  and the errors of chunks and fatal errors as errors of receiving, all modulo \<open>2 ^ 64\<close>. A
  message that crashes is counted as received only.
\<close>

theorem server_counts:
  assumes "(serve_step (gelf_process lib z now p))\<^sup>*\<^sup>* ([], d, out, Continue) (evs, d', out', ctl)"
    and "libraries_ok lib parse z body" and "fates = map (\<lambda>m. fate lib parse (now m) p (body m)) (messages_of evs)"
    and "level_cell d = 0" and "\<forall>m. accounted m d = 0"
    and "installed d = None \<or> installed d = Some \<lparr>metrics_handle = Some (Running Waiting)\<rparr>"
  shows "accounted (Server M_receive_ok) d' = of_nat (length fates) \<and>
    accounted (Server M_process_ok) d' = of_nat (length (filter (\<lambda>f. \<exists>line. f = Printed line) fates)) \<and>
    accounted (Server M_process_err) d' = of_nat (length (filter (\<lambda>f. f = Refused) fates)) \<and>
    accounted (Server M_receive_err) d' = of_nat (length (filter is_error evs))"
proof -
  let ?f = "\<lambda>m. fate lib parse (now m) p (body m)"
  have "sampler_ok (installed d)" using assms(6) by (auto simp: sampler_ok_def)
  note counted = gelf_printer.serve_counts [OF assms(1) libraries_ok_all [OF assms(2)] assms(4) this]
  have "sum_list (map (counts ?f M_receive_ok) evs) = length (messages_of evs)"
    "sum_list (map (counts ?f M_process_ok) evs) = length (filter (\<lambda>m. \<exists>line. ?f m = Printed line) (messages_of evs))"
    "sum_list (map (counts ?f M_process_err) evs) = length (filter (\<lambda>m. ?f m = Refused) (messages_of evs))"
    "sum_list (map (counts ?f M_receive_err) evs) = length (filter is_error evs)"
    by (induction evs) (simp_all add: counts_def)
  with counted [of M_receive_ok] counted [of M_process_ok] counted [of M_process_err] counted [of M_receive_err]
    assms(3,5) show ?thesis
    by (simp add: filter_map comp_def)
qed

theorem server_counts_witness:
  "\<exists>d' out' ctl.
     (serve_step (gelf_process sample_lib no_inflate (\<lambda>_. 9) (process_new default_process_config)))\<^sup>*\<^sup>*
       ([], (initial_diag 0)\<lparr>installed := Some \<lparr>metrics_handle = Some (Running Waiting)\<rparr>\<rparr>, [], Continue)
       ([Incoming (Some (Ok (Complete (Single None [255]))))], d', out', ctl) \<and>
     accounted (Server M_receive_ok) d' = 1 \<and> accounted (Server M_process_err) d' = 1 \<and>
     accounted (Server M_process_ok) d' = 0"
proof -
  let ?p = "gelf_process sample_lib no_inflate (\<lambda>_. 9) (process_new default_process_config)"
  let ?d = "(initial_diag 0)\<lparr>installed := Some \<lparr>metrics_handle = Some (Running Waiting)\<rparr>\<rparr>"
  let ?ev = "Incoming (Some (Ok (Complete (Single None [255]))))"
  obtain d1 out1 ctl where s: "server_step ?p ?ev (sampler_turn ?d) [] = (d1, out1, ctl)" by (metis prod_cases3)
  have "serve_step ?p ([], ?d, [], Continue) ([], sampler_turn ?d, [], Continue)" by (rule Sample)
  moreover have "serve_step ?p ([], sampler_turn ?d, [], Continue) ([?ev], d1, out1, ctl)"
    using Serve [where evs = "[]", OF s] by simp
  moreover have "serve_step ?p ([?ev], d1, out1, ctl) ([?ev], sampler_turn d1, out1, ctl)" by (rule Sample)
  ultimately have run: "(serve_step ?p)\<^sup>*\<^sup>* ([], ?d, [], Continue) ([?ev], sampler_turn d1, out1, ctl)"
    by (meson converse_rtranclp_into_rtranclp rtranclp.rtrancl_refl)
  have "\<not> valid_utf8 [255]" by (simp add: valid_utf8.simps sequence_length_def Let_def)
  from sample_fate [OF this] have "fate sample_lib sample_parse 9 (process_new default_process_config)
      (plain_body (Single None [255])) = Refused" by (simp add: plain_body_def)
  moreover have "\<forall>m. accounted m ?d = 0" "level_cell ?d = 0"
    by (simp_all add: accounted_def held_def initial_diag_def)
  ultimately show ?thesis
    using server_counts [OF run sample_libraries_ok refl] run by (auto intro!: exI)
qed

text \<open>
  C34: a bind address. A text that starts with \<open>tcp://\<close> or \<open>udp://\<close>, where the rest starts
  at a character, is split into that protocol and the rest; any other text is the address
  itself, over UDP. Reading an address never fails.
\<close>

theorem bind_address:
  assumes "char_boundary a 0"
  shows "bind_from_str (''tcp://'' @ a) = Ok \<lparr>bind_addr = a, bind_protocol = Tcp\<rparr> \<and>
    bind_from_str (''udp://'' @ a) = Ok \<lparr>bind_addr = a, bind_protocol = Udp\<rparr> \<and>
    (take 6 s \<noteq> ''tcp://'' \<and> take 6 s \<noteq> ''udp://'' \<longrightarrow>
     bind_from_str s = Ok \<lparr>bind_addr = s, bind_protocol = Udp\<rparr>)"
proof -
  have "char_boundary (pre @ a) 6" if "length pre = 6" for pre
    using assms that by (auto simp: char_boundary_def nth_append)
  from this [of "''tcp://''"] this [of "''udp://''"] show ?thesis
    by (simp add: bind_from_str_def str_get_prefix_def)
qed

theorem bind_address_witness:
  "bind_from_str ''tcp://0.0.0.0:1'' = Ok \<lparr>bind_addr = ''0.0.0.0:1'', bind_protocol = Tcp\<rparr> \<and>
   bind_from_str ''[::]:1'' = Ok \<lparr>bind_addr = ''[::]:1'', bind_protocol = Udp\<rparr>"
  using bind_address [of "''0.0.0.0:1''" "''[::]:1''"] by (simp add: char_boundary_def)

end
