(* ===== verification/Sqelf_Main.thy ===== *)
theory Sqelf_Main
  imports Config Server_Props
begin

text \<open>
  \<open>main.rs\<close>: the program put together. It reads its configuration, starts the diagnostics,
  builds the server and runs it; a panic is caught and reported like an error. What the
  network, the signals and standard input do, and when the loop looks at its handle, is an
  argument.
\<close>

section \<open>Standard input\<close>

datatype stdin_read = Read_bytes nat | Read_error

text \<open>
  \<open>listen_for_stdin_closed\<close>: a thread that reads one byte at a time. The end or an error
  closes the handle and ends the thread. One turn of its loop gives the channel of the
  handle and whether the thread goes on.
\<close>

fun listen_for_stdin_closed :: "stdin_read \<Rightarrow> oneshot \<Rightarrow> oneshot \<times> bool" where
  "listen_for_stdin_closed (Read_bytes 0) ch = (fst (handle_close ch), False)"
| "listen_for_stdin_closed (Read_bytes (Suc n)) ch = (ch, True)"
| "listen_for_stdin_closed Read_error ch = (fst (handle_close ch), False)"

text \<open>
  What happens while the program runs: the stream gives an item, the thread reads standard
  input, \<open>select!\<close> looks at the handle, the termination signal arrives. The events of the
  loop follow: the arm of the handle fires once, after the handle was closed; the thread is
  there only if \<open>watching\<close>.
\<close>

datatype occurrence =
    Arrives "received result option"
  | Stdin stdin_read
  | Close_polled
  | Signalled

fun select_events :: "bool \<Rightarrow> oneshot \<Rightarrow> occurrence list \<Rightarrow> server_event list" where
  "select_events watching ch [] = []"
| "select_events watching ch (Arrives x # os) = Incoming x # select_events watching ch os"
| "select_events watching ch (Stdin r # os) =
     (if watching then (case listen_for_stdin_closed r ch of (ch, watching) \<Rightarrow> select_events watching ch os)
      else select_events watching ch os)"
| "select_events watching ch (Close_polled # os) =
     (if ch = Chan_sent then Handle_closed # select_events watching Chan_closed os
      else select_events watching ch os)"
| "select_events watching ch (Signalled # os) = Ctrl_c # select_events watching ch os"

section \<open>The program\<close>

fun unwrap_panic :: "panic_payload \<Rightarrow> error" where
  "unwrap_panic (Panic_str s) = Panicked s"
| "unwrap_panic (Panic_string s) = Panicked s"
| "unwrap_panic Panic_other = Panicked ''unexpected panic (this is a bug)''"

text \<open>
  \<open>run\<close>. No result means that the program is still running: the loop waits for the next
  event, or a message is being processed for ever. As a Seq app the program gives the handle
  to the thread that watches standard input; otherwise nothing closes it.
\<close>

definition run_built ::
  "('a, 'f, 'k, 'p, 't) net \<Rightarrow> string list process_fn \<Rightarrow> environment \<Rightarrow> ('t incoming \<Rightarrow> occurrence list) \<Rightarrow>
   'a server \<Rightarrow> diag \<Rightarrow> string list \<Rightarrow> diag \<times> string list \<times> unit result option" where
  "run_built n process env occurs srv d out =
     (let (srv, taken) = (if is_seq_app env then take_handle srv else (srv, True));
          watching = is_seq_app env
      in if \<not> taken then (d, out, Some (Err NoHandle))
         else
           (case server_run n process srv (\<lambda>inc. select_events watching Chan_open (occurs inc)) d out of
              (d, out, Break) \<Rightarrow>
                (case stop_diagnostics (sampler_joins n) d of (d, r) \<Rightarrow> (d, out, Some r))
            | (d, out, Unwind p) \<Rightarrow> (d, out, Some (Panic p))
            | (d, out, Continue) \<Rightarrow> (d, out, None)
            | (d, out, Hang) \<Rightarrow> (d, out, None)))"

definition run ::
  "('a, 'f, 'k, 'p, 't) net \<Rightarrow> (process \<Rightarrow> string list process_fn) \<Rightarrow> environment \<Rightarrow>
   ('t incoming \<Rightarrow> occurrence list) \<Rightarrow> diag \<Rightarrow> string list \<Rightarrow> diag \<times> string list \<times> unit result option" where
  "run n process env occurs d out =
     (case from_env env of
        Err e \<Rightarrow> (d, out, Some (Err e))
      | Panic p \<Rightarrow> (d, out, Some (Panic p))
      | Ok cfg \<Rightarrow>
          (case init_diagnostics (cfg_diagnostics cfg) d of
             (d, Err e) \<Rightarrow> (d, out, Some (Err e))
           | (d, Panic p) \<Rightarrow> (d, out, Some (Panic p))
           | (d, Ok _) \<Rightarrow>
               (case build_server n (cfg_server cfg) d of
                  (d, Err e) \<Rightarrow> (d, out, Some (Err e))
                | (d, Panic p) \<Rightarrow> (d, out, Some (Panic p))
                | (d, Ok srv) \<Rightarrow>
                    run_built n (process (process_new (cfg_process cfg))) env occurs srv d out)))"

text \<open>\<open>main\<close>: the exit code, once the program has stopped.\<close>

definition sqelf_main ::
  "('a, 'f, 'k, 'p, 't) net \<Rightarrow> (process \<Rightarrow> string list process_fn) \<Rightarrow> environment \<Rightarrow>
   ('t incoming \<Rightarrow> occurrence list) \<Rightarrow> diag \<Rightarrow> string list \<Rightarrow> diag \<times> string list \<times> nat option" where
  "sqelf_main n process env occurs d out =
     (case run n process env occurs d out of
        (d, out, None) \<Rightarrow> (d, out, None)
      | (d, out, Some r) \<Rightarrow>
          (let run_server = (case r of Panic p \<Rightarrow> Err (unwrap_panic p) | r \<Rightarrow> r)
           in case run_server of
                Err e \<Rightarrow> (emit_err e ''GELF input failed'' d, out, Some 1)
              | _ \<Rightarrow> (emit ''GELF input stopped'' d, out, Some 0)))"

section \<open>Facts\<close>

text \<open>The handle closes the loop when it is looked at after standard input has ended.\<close>

definition read_ends :: "stdin_read \<Rightarrow> bool" where
  "read_ends r \<longleftrightarrow> r = Read_bytes 0 \<or> r = Read_error"

fun closed_after_end :: "occurrence list \<Rightarrow> bool" where
  "closed_after_end [] = False"
| "closed_after_end (Stdin r # os) = (read_ends r \<and> Close_polled \<in> set os \<or> closed_after_end os)"
| "closed_after_end (_ # os) = closed_after_end os"

lemma select_events_sent: "Handle_closed \<in> set (select_events watching Chan_sent os) \<longleftrightarrow> Close_polled \<in> set os"
proof (induction os arbitrary: watching)
  case (Cons x os)
  then show ?case
  proof (cases x)
    case (Stdin r)
    obtain go where "listen_for_stdin_closed r Chan_sent = (Chan_sent, go)"
      by (cases "(r, Chan_sent)" rule: listen_for_stdin_closed.cases) (auto simp: handle_close_def)
    with Cons.IH Stdin show ?thesis by auto
  qed auto
qed simp

lemma select_events_open:
  "Handle_closed \<in> set (select_events watching Chan_open os) \<longleftrightarrow> watching \<and> closed_after_end os"
proof (induction os arbitrary: watching)
  case (Cons x os)
  then show ?case
  proof (cases x)
    case (Stdin r)
    have "listen_for_stdin_closed r Chan_open = (if read_ends r then (Chan_sent, False) else (Chan_open, True))"
      by (cases "(r, Chan_open)" rule: listen_for_stdin_closed.cases) (auto simp: handle_close_def read_ends_def)
    moreover have "closed_after_end os \<Longrightarrow> Close_polled \<in> set os"
      by (induction os rule: closed_after_end.induct) auto
    ultimately show ?thesis
      using Cons.IH Stdin select_events_sent by auto
  qed auto
qed simp

lemma set_select_events:
  "set (select_events watching ch os) \<subseteq>
   {Handle_closed} \<union> {ev. ev = Ctrl_c \<and> Signalled \<in> set os} \<union> {Incoming x |x. Arrives x \<in> set os}"
proof (induction os arbitrary: watching ch)
  case (Cons x os)
  then show ?case
  proof (cases x)
    case (Stdin r)
    obtain ch' go where "listen_for_stdin_closed r ch = (ch', go)" by fastforce
    with Cons.IH [of go ch'] Cons.IH [of watching ch] Stdin show ?thesis by auto
  next
    case Close_polled
    with Cons.IH [of watching Chan_closed] Cons.IH [of watching ch] show ?thesis by auto
  next
    case (Arrives y)
    with Cons.IH [of watching ch] show ?thesis by auto
  next
    case Signalled
    with Cons.IH [of watching ch] show ?thesis by auto
  qed
qed simp

lemma find_only:
  assumes "\<forall>y \<in> set ys. P y \<longrightarrow> y = x" and "P x"
  shows "find P ys = (if x \<in> set ys then Some x else None)"
  using assms(1)
proof (induction ys)
  case (Cons y ys)
  from Cons.prems assms(2) have "P y \<longleftrightarrow> y = x" by auto
  with Cons show ?case by auto
qed simp

lemma from_env_no_panic: "\<not> panics (from_env env)"
proof -
  obtain addr diag_var cert key where "var_names (is_seq_app env) = (addr, diag_var, cert, key)"
    by (metis prod_cases4)
  from from_env_cases [OF this] show ?thesis
    by (simp add: not_unicode_def Let_def)
qed

lemma setup_frame [simp]:
  "level_cell (fst (setup_incoming n cfg addr d)) = level_cell d"
  "installed (fst (setup_incoming n cfg addr d)) = installed d"
  by (auto simp: setup_incoming_def setup_tls_def udp_build_def tcp_build_def
      split: protocol.splits outcome.splits option.splits prod.splits)

lemma setup_result_const: "snd (setup_incoming n cfg addr d) = snd (setup_incoming n cfg addr d0)"
  by (auto simp: setup_incoming_def setup_tls_def tcp_build_def
      split: protocol.splits outcome.splits option.splits prod.splits)

text \<open>Stopping the diagnostics that the program started fails only if the thread cannot be joined.\<close>

definition started :: "diag_config \<Rightarrow> diag \<Rightarrow> bool" where
  "started cfg d \<longleftrightarrow>
     installed d = Some \<lparr>metrics_handle = if min_level cfg = Debug then Some (Running Waiting) else None\<rparr>"

lemma init_started:
  "installed d = None \<Longrightarrow> \<exists>d'. init_diagnostics cfg d = (d', Ok ()) \<and> started cfg d'"
  by (cases "min_level cfg") (simp_all add: init_diagnostics_def Let_def set_min_level_def started_def)

lemma stop_started:
  assumes "started cfg d"
  shows "snd (stop_diagnostics joins d) = (if min_level cfg = Debug \<and> \<not> joins then Err MetricsJoin else Ok ())"
    and "set (stderr d) \<subseteq> set (stderr (fst (stop_diagnostics joins d)))"
  using assms by (auto simp: started_def stop_diagnostics_def drop_diagnostics_def diag_op_defs Let_def split: if_splits)

text \<open>From the configuration to the loop: the steps of \<open>run\<close> that succeed.\<close>

lemma run_reaches_server:
  assumes "installed d = None" and "from_env env = Ok cfg"
    and "parse_addr n (bind_addr (server_bind (cfg_server cfg))) = Ok addr" and "start_runtime n = Inr ()"
  obtains d2 srv where "started (cfg_diagnostics cfg) d2"
    and "srv_config srv = cfg_server cfg" and "srv_addr srv = addr"
    and "run n process env occurs d out =
      (case run_server n (process (process_new (cfg_process cfg))) srv
              (\<lambda>inc. select_events (is_seq_app env) Chan_open (occurs inc)) d2 out of
         (d, out, Break) \<Rightarrow> (case stop_diagnostics (sampler_joins n) d of (d, r) \<Rightarrow> (d, out, Some r))
       | (d, out, Unwind p) \<Rightarrow> (d, out, Some (Panic p))
       | (d, out, Continue) \<Rightarrow> (d, out, None)
       | (d, out, Hang) \<Rightarrow> (d, out, None))"
proof -
  obtain d1 where init: "init_diagnostics (cfg_diagnostics cfg) d = (d1, Ok ())" "started (cfg_diagnostics cfg) d1"
    using init_started [OF assms(1)] by blast
  let ?srv = "\<lparr>srv_config = cfg_server cfg, srv_addr = addr, srv_handle = True\<rparr>"
  let ?srv' = "if is_seq_app env then ?srv\<lparr>srv_handle := False\<rparr> else ?srv"
  have "build_server n (cfg_server cfg) d1 = (emit ''Starting GELF server'' d1, Ok ?srv)"
    using assms(3) by (simp add: build_server_def)
  then show thesis
    using assms(2,4) init
    by (intro that [of "emit ''Starting GELF server'' d1" ?srv'])
      (simp_all add: run_def run_built_def take_handle_def server_run_def started_def)
qed

text \<open>The end of a run of the loop and the exit code.\<close>

fun exit_code :: "control \<Rightarrow> nat option" where
  "exit_code Break = Some 0"
| "exit_code (Unwind _) = Some 1"
| "exit_code _ = None"

text \<open>An error event on standard error.\<close>

definition reports :: "string \<Rightarrow> error \<Rightarrow> diag \<Rightarrow> bool" where
  "reports template e d \<longleftrightarrow>
     (\<exists>d0. new_event d0 ''ERROR'' (Some (format_error e)) template None \<in> set (stderr d))"

lemma reports_emit_err [simp]: "reports template e (emit_err e template d)"
  by (auto simp: reports_def emit_err_def eprintln_def)

lemma reports_emit [simp]: "reports template e d \<Longrightarrow> reports template e (emit t d)"
  by (auto simp: reports_def emit_def eprintln_def)

text \<open>What \<open>main\<close> makes of an error and of a panic of \<open>run\<close>.\<close>

lemma main_failed:
  assumes "sqelf_main n process env occurs d out = (d', out', code)"
    and "run n process env occurs d out = (d1, out1, Some (Err e)) \<or>
      (\<exists>q. run n process env occurs d out = (d1, out1, Some (Panic q)) \<and> e = unwrap_panic q)"
  shows "code = Some 1 \<and> reports ''GELF input failed'' e d'"
  using assms by (auto simp: sqelf_main_def)

lemma main_no_address:
  assumes "installed d = None" and "from_env env = Ok cfg"
    and "parse_addr n (bind_addr (server_bind (cfg_server cfg))) = r"
    and "sqelf_main n process env occurs d out = (d', out', code)"
  shows "r = Err e \<Longrightarrow> code = Some 1 \<and> reports ''GELF input failed'' e d'"
    and "r = Panic q \<Longrightarrow> code = Some 1 \<and> reports ''GELF input failed'' (unwrap_panic q) d'"
proof -
  obtain d1 where "init_diagnostics (cfg_diagnostics cfg) d = (d1, Ok ())"
    using init_started [OF assms(1)] by blast
  note start = this assms(2,3)
  show "code = Some 1 \<and> reports ''GELF input failed'' e d'" if "r = Err e"
    using main_failed [OF assms(4), of "emit ''Starting GELF server'' d1" out e] start that
    by (simp add: run_def build_server_def)
  show "code = Some 1 \<and> reports ''GELF input failed'' (unwrap_panic q) d'" if "r = Panic q"
    using main_failed [OF assms(4), of "emit ''Starting GELF server'' d1" out] start that
    by (simp add: run_def build_server_def)
qed

lemma main_no_runtime:
  assumes "installed d = None" and "from_env env = Ok cfg"
    and "parse_addr n (bind_addr (server_bind (cfg_server cfg))) = Ok addr" and "start_runtime n = Inl t"
    and "sqelf_main n process env occurs d out = (d', out', code)"
  shows "code = Some 1 \<and> reports ''GELF input failed'' (Panicked (''failed to start new Runtime: '' @ t)) d'"
proof -
  obtain d1 where "init_diagnostics (cfg_diagnostics cfg) d = (d1, Ok ())"
    using init_started [OF assms(1)] by blast
  then have "run n process env occurs d out = (emit ''Starting GELF server'' d1, out,
      Some (Panic (Panic_string (''failed to start new Runtime: '' @ t))))"
    using assms(2-4) by (simp add: run_def build_server_def run_built_def take_handle_def server_run_def)
  then show ?thesis using main_failed [OF assms(5)] by force
qed

lemma main_served:
  assumes "installed d = None" and "from_env env = Ok cfg"
    and "parse_addr n (bind_addr (server_bind (cfg_server cfg))) = Ok addr" and "start_runtime n = Inr ()"
    and "snd (setup_incoming n (cfg_server cfg) addr d) = Ok inc"
    and joins: "min_level (cfg_diagnostics cfg) = Debug \<longrightarrow> sampler_joins n"
    and "sqelf_main n (gelf_process lib z now) env occurs d out = (d', out', code)"
  obtains d3 d4 ctl where
    "server_loop (gelf_process lib z now (process_new (cfg_process cfg)))
       (select_events (is_seq_app env) Chan_open (occurs inc)) d3 out = (d4, out', ctl)"
    and "code = exit_code ctl"
    and "\<forall>q. ctl = Unwind q \<longrightarrow> reports ''GELF input failed'' (unwrap_panic q) d'"
proof -
  let ?process = "gelf_process lib z now (process_new (cfg_process cfg))"
  let ?events = "\<lambda>inc. select_events (is_seq_app env) Chan_open (occurs inc)"
  obtain d2 srv where d2: "started (cfg_diagnostics cfg) d2" "srv_config srv = cfg_server cfg" "srv_addr srv = addr"
    and run: "run n (gelf_process lib z now) env occurs d out =
      (case run_server n ?process srv ?events d2 out of
         (d, out, Break) \<Rightarrow> (case stop_diagnostics (sampler_joins n) d of (d, r) \<Rightarrow> (d, out, Some r))
       | (d, out, Unwind p) \<Rightarrow> (d, out, Some (Panic p))
       | (d, out, Continue) \<Rightarrow> (d, out, None)
       | (d, out, Hang) \<Rightarrow> (d, out, None))"
    using run_reaches_server [OF assms(1-4)] by blast
  obtain d3 where d3: "setup_incoming n (cfg_server cfg) addr d2 = (d3, Ok inc)"
    using assms(5) setup_result_const [of n "cfg_server cfg" addr d2 d] by (metis prod.collapse)
  obtain d4 out4 ctl where loop: "server_loop ?process (?events inc) d3 out = (d4, out4, ctl)"
    by (metis prod_cases3)
  have "installed d4 = installed d2"
    using gelf_printer.loop_frame [OF loop] setup_frame(2) [of n "cfg_server cfg" addr d2] d3 by simp
  then have "started (cfg_diagnostics cfg) (emit ''Stopping GELF server'' d4)"
    using d2(1) by (simp add: started_def)
  from stop_started(1) [OF this, of "sampler_joins n"] joins
  obtain d5 where "stop_diagnostics (sampler_joins n) (emit ''Stopping GELF server'' d4) = (d5, Ok ())"
    by (metis prod.collapse)
  then have "out' = out4 \<and> code = exit_code ctl \<and>
      (\<forall>q. ctl = Unwind q \<longrightarrow> reports ''GELF input failed'' (unwrap_panic q) d')"
    using assms(7) run d2(2,3) d3 loop
    by (cases ctl) (auto simp: sqelf_main_def run_server_def)
  with loop that show thesis by blast
qed

text \<open>The server could not be set up.\<close>

lemma main_not_set_up:
  assumes "installed d = None" and "from_env env = Ok cfg"
    and "parse_addr n (bind_addr (server_bind (cfg_server cfg))) = Ok addr" and "start_runtime n = Inr ()"
    and "sampler_joins n" and "sqelf_main n process env occurs d out = (d', out', code)"
  shows "snd (setup_incoming n (cfg_server cfg) addr d) = Err e \<Longrightarrow>
      code = Some 0 \<and> reports ''GELF server failed'' e d'"
    and "snd (setup_incoming n (cfg_server cfg) addr d) = Panic q \<Longrightarrow>
      code = Some 1 \<and> reports ''GELF input failed'' (unwrap_panic q) d'"
proof -
  obtain d2 srv where d2: "started (cfg_diagnostics cfg) d2" "srv_config srv = cfg_server cfg" "srv_addr srv = addr"
    and run: "run n process env occurs d out =
      (case run_server n (process (process_new (cfg_process cfg))) srv
              (\<lambda>inc. select_events (is_seq_app env) Chan_open (occurs inc)) d2 out of
         (d, out, Break) \<Rightarrow> (case stop_diagnostics (sampler_joins n) d of (d, r) \<Rightarrow> (d, out, Some r))
       | (d, out, Unwind p) \<Rightarrow> (d, out, Some (Panic p))
       | (d, out, Continue) \<Rightarrow> (d, out, None)
       | (d, out, Hang) \<Rightarrow> (d, out, None))"
    using run_reaches_server [OF assms(1-4)] by blast
  obtain d3 r where d3: "setup_incoming n (cfg_server cfg) addr d2 = (d3, r)" by fastforce
  then have r: "snd (setup_incoming n (cfg_server cfg) addr d) = r"
    using setup_result_const [of n "cfg_server cfg" addr d2 d] by simp
  show "code = Some 0 \<and> reports ''GELF server failed'' e d'"
    if "snd (setup_incoming n (cfg_server cfg) addr d) = Err e"
  proof -
    let ?d4 = "emit_err e ''GELF server failed'' d3"
    have "started (cfg_diagnostics cfg) ?d4"
      using d2(1) d3 setup_frame(2) [of n "cfg_server cfg" addr d2] by (simp add: started_def)
    note stop = stop_started [OF this, of True]
    obtain d5 where d5: "stop_diagnostics True ?d4 = (d5, Ok ())"
      using stop(1) by (metis prod.collapse)
    have "reports ''GELF server failed'' e d5"
      using reports_emit_err [of "''GELF server failed''" e d3] stop(2) d5 by (auto simp: reports_def)
    then show ?thesis
      using assms(5,6) run d2(2,3) d3 r that d5 by (auto simp: sqelf_main_def run_server_def)
  qed
  show "code = Some 1 \<and> reports ''GELF input failed'' (unwrap_panic q) d'"
    if "snd (setup_incoming n (cfg_server cfg) addr d) = Panic q"
    using assms(6) run d2(2,3) d3 r that by (auto simp: sqelf_main_def run_server_def)
qed

definition sample_net :: "(unit, string, string, string, string) net" where
  "sample_net =
     \<lparr>start_runtime = Inr (), parse_addr = (\<lambda>s. if s = ''0.0.0.0:12201'' then Ok ()
        else Err (Library ''invalid socket address syntax'' [])),
      bind_udp = (\<lambda>_. Ok ()), bind_tcp = (\<lambda>_. Ok ()), open_file = (\<lambda>s. Ok s),
      pem_certs = (\<lambda>f. Ok [f]), pem_pkcs8_keys = (\<lambda>f. Ok [f]), sampler_joins = True,
      tls_config = (\<lambda>cs k. Ok k)\<rparr>"

text \<open>The environment that sets nothing, and one that says the program is a Seq app.\<close>

lemma default_env: "from_env (\<lambda>_. Not_present) = Ok default_config"
  by (simp add: from_env_def Let_def is_seq_app_def read_environment_def is_truthy_def
      certificate_from_env_def is_present_def default_config_def)

section \<open>Properties\<close>

text \<open>
  C27: the exit code. Start the program with fresh diagnostics whose thread can be joined, in
  a release build. A configuration that cannot be read, an address that does not parse and a
  runtime that does not start make it exit with code 1 and report the error. A server that
  cannot be set up (no socket, no TLS) is reported too, but the program exits with code 0.
  Otherwise the loop decides at the first event that stops it: a closed handle, the
  termination signal and a fatal error of the stream lead to code 0, a panic to code 1 and a
  report of its text; with no such event the program goes on.
\<close>

theorem main_exit_code:
  assumes "installed d = None" and "sampler_joins n" and "libraries_ok lib parse z body"
    and "sqelf_main n (gelf_process lib z now) env occurs d out = (d', out', code)"
  shows "case from_env env of
      Err e \<Rightarrow> code = Some 1 \<and> reports ''GELF input failed'' e d'
    | Panic q \<Rightarrow> False
    | Ok cfg \<Rightarrow>
        (case (parse_addr n (bind_addr (server_bind (cfg_server cfg))), start_runtime n) of
           (Err e, _) \<Rightarrow> code = Some 1 \<and> reports ''GELF input failed'' e d'
         | (Panic q, _) \<Rightarrow> code = Some 1 \<and> reports ''GELF input failed'' (unwrap_panic q) d'
         | (Ok addr, Inl t) \<Rightarrow>
             code = Some 1 \<and> reports ''GELF input failed'' (Panicked (''failed to start new Runtime: '' @ t)) d'
         | (Ok addr, Inr _) \<Rightarrow>
             (case snd (setup_incoming n (cfg_server cfg) addr d) of
                Err e \<Rightarrow> code = Some 0 \<and> reports ''GELF server failed'' e d'
              | Panic q \<Rightarrow> code = Some 1 \<and> reports ''GELF input failed'' (unwrap_panic q) d'
              | Ok inc \<Rightarrow>
                  \<exists>ctl. ends_with (find (stops (\<lambda>m. fate lib parse (now m) (process_new (cfg_process cfg)) (body m)))
                      (select_events (is_seq_app env) Chan_open (occurs inc))) ctl \<and>
                    code = exit_code ctl \<and>
                    (\<forall>q. ctl = Unwind q \<longrightarrow> reports ''GELF input failed'' (unwrap_panic q) d')))"
proof (cases "from_env env")
  case (Err e)
  then have "run n (gelf_process lib z now) env occurs d out = (d, out, Some (Err e))"
    by (simp add: run_def)
  with main_failed [OF assms(4)] Err show ?thesis by simp
next
  case (Panic q)
  with from_env_no_panic [of env] show ?thesis by simp
next
  case (Ok cfg)
  let ?addr = "parse_addr n (bind_addr (server_bind (cfg_server cfg)))"
  show ?thesis
  proof (cases ?addr)
    case (Ok addr)
    note addr = this
    show ?thesis
    proof (cases "start_runtime n")
      case (Inl t)
      with main_no_runtime [OF assms(1) \<open>from_env env = Ok cfg\<close> addr _ assms(4)] addr \<open>from_env env = Ok cfg\<close>
      show ?thesis by simp
    next
      case (Inr u)
      then have up: "start_runtime n = Inr ()" by simp
      show ?thesis
      proof (cases "snd (setup_incoming n (cfg_server cfg) addr d)")
        case (Ok inc)
        obtain d3 d4 ctl where "server_loop (gelf_process lib z now (process_new (cfg_process cfg)))
            (select_events (is_seq_app env) Chan_open (occurs inc)) d3 out = (d4, out', ctl)"
          and ctl: "code = exit_code ctl"
            "\<forall>q. ctl = Unwind q \<longrightarrow> reports ''GELF input failed'' (unwrap_panic q) d'"
          using main_served [OF assms(1) \<open>from_env env = Ok cfg\<close> addr up Ok _ assms(4)] assms(2) by blast
        from gelf_printer.loop_run [OF libraries_ok_all [OF assms(3)] this(1)] ctl Ok addr up \<open>from_env env = Ok cfg\<close>
        show ?thesis by auto
      qed (use main_not_set_up [OF assms(1) \<open>from_env env = Ok cfg\<close> addr up assms(2,4)] addr up
          \<open>from_env env = Ok cfg\<close> in simp_all)
    qed
  qed (use main_no_address [OF assms(1) \<open>from_env env = Ok cfg\<close> _ assms(4)] \<open>from_env env = Ok cfg\<close> in simp_all)
qed

text \<open>An address that does not parse, and a socket that cannot be bound.\<close>

theorem main_exit_code_witness:
  "snd (snd (sqelf_main sample_net (gelf_process sample_lib no_inflate (\<lambda>_. 9))
     ((\<lambda>_. Not_present)(''GELF_ADDRESS'' := Var ''nowhere'')) (\<lambda>_. []) (initial_diag 0) [])) = Some 1 \<and>
   snd (snd (sqelf_main (sample_net\<lparr>bind_udp := (\<lambda>_. Err (Io OtherKind ''Address already in use''))\<rparr>)
     (gelf_process sample_lib no_inflate (\<lambda>_. 9)) (\<lambda>_. Not_present) (\<lambda>_. []) (initial_diag 0) [])) = Some 0"
proof
  let ?env = "(\<lambda>_. Not_present)(''GELF_ADDRESS'' := Var ''nowhere'')"
  let ?process = "gelf_process sample_lib no_inflate (\<lambda>_. 9)"
  have env: "from_env ?env = Ok (default_config\<lparr>cfg_server := default_server_config\<lparr>server_bind :=
      \<lparr>bind_addr = ''nowhere'', bind_protocol = Udp\<rparr>\<rparr>\<rparr>)"
    by (simp add: from_env_def Let_def is_seq_app_def read_environment_def is_truthy_def
        certificate_from_env_def is_present_def default_config_def bind_from_str_def
        str_get_prefix_def)
  obtain d' out' code where m: "sqelf_main sample_net ?process ?env (\<lambda>_. []) (initial_diag 0) [] = (d', out', code)"
    by (metis prod_cases3)
  have "installed (initial_diag 0) = None" "sampler_joins sample_net"
    by (simp_all add: initial_diag_def sample_net_def)
  from main_exit_code [OF this sample_libraries_ok m] env m
  show "snd (snd (sqelf_main sample_net ?process ?env (\<lambda>_. []) (initial_diag 0) [])) = Some 1"
    by (simp add: sample_net_def)
next
  let ?net = "sample_net\<lparr>bind_udp := (\<lambda>_. Err (Io OtherKind ''Address already in use''))\<rparr>"
  let ?process = "gelf_process sample_lib no_inflate (\<lambda>_. 9)"
  obtain d' out' code where
    m: "sqelf_main ?net ?process (\<lambda>_. Not_present) (\<lambda>_. []) (initial_diag 0) [] = (d', out', code)"
    by (metis prod_cases3)
  have "installed (initial_diag 0) = None" "sampler_joins ?net"
    by (simp_all add: initial_diag_def sample_net_def)
  from main_exit_code [OF this sample_libraries_ok m] m default_env
  show "snd (snd (sqelf_main ?net ?process (\<lambda>_. Not_present) (\<lambda>_. []) (initial_diag 0) [])) = Some 0"
    by (simp add: sample_net_def default_config_def default_server_config_def setup_incoming_def)
qed

text \<open>
  C10: a regular run. Start the program in a release build, in an environment that configures
  it, with an address it can listen on, and let anything happen of which the first event that
  stops the loop is the closed handle or the termination signal. Then the program exits with
  code 0 and its output is what the events before it give, in the order in which they
  arrived: exactly one line, that of its event, for every message that parses, and nothing for
  a message that does not parse or cannot be decompressed. (At the debug level the sampling
  thread must return when it is joined.)
\<close>

theorem regular_run:
  assumes "installed d = None" and "from_env env = Ok cfg"
    and "parse_addr n (bind_addr (server_bind (cfg_server cfg))) = Ok addr" and "start_runtime n = Inr ()"
    and "snd (setup_incoming n (cfg_server cfg) addr d) = Ok inc"
    and "min_level (cfg_diagnostics cfg) = Debug \<longrightarrow> sampler_joins n"
    and "libraries_ok lib parse z body"
    and "f = (\<lambda>m. fate lib parse (now m) (process_new (cfg_process cfg)) (body m))"
    and "events = select_events (is_seq_app env) Chan_open (occurs inc)"
    and "find (stops f) events \<in> {Some Handle_closed, Some Ctrl_c}"
    and "sqelf_main n (gelf_process lib z now) env occurs d out = (d', out', code)"
  shows "code = Some 0 \<and>
    out' = out @ concat (map (\<lambda>m. fate_lines (f m)) (messages_of (served f events))) \<and>
    (\<forall>m \<in> set (messages_of (served f events)).
       length (fate_lines (f m)) = (if Option.bind (body m) parse = None then 0 else 1))"
proof -
  obtain d3 d4 ctl where loop: "server_loop (gelf_process lib z now (process_new (cfg_process cfg)))
      events d3 out = (d4, out', ctl)" and code: "code = exit_code ctl"
    using main_served [OF assms(1-6,11)] unfolding assms(9) by blast
  have "ctl = Break"
    using gelf_printer.loop_run [OF libraries_ok_all [OF assms(7)] loop] assms(8,10) by auto
  moreover have "out' = out @ concat (map (\<lambda>m. fate_lines (f m)) (messages_of (served f events)))"
    using gelf_printer.loop_output [OF libraries_ok_all [OF assms(7)] loop] unfolding assms(8) by simp
  moreover have "length (fate_lines (f m)) = (if Option.bind (body m) parse = None then 0 else 1)"
    if "m \<in> set (messages_of (served f events))" for m
    using served_not_crashed [OF that] fate_lines_length [of lib parse] assms(7)
    unfolding assms(8) libraries_ok_def formats_ok_def by blast
  ultimately show ?thesis using code by simp
qed

theorem regular_run_witness:
  "\<exists>d' line.
     sqelf_main sample_net (gelf_process sample_lib no_inflate (\<lambda>_. 9)) (\<lambda>_. Not_present)
       (\<lambda>_. [Stdin (Read_bytes 0), Arrives (Some (Ok (Complete (Single None [104])))),
             Arrives (Some (Ok (Complete (Single (Some Gzip) [0x1f, 0x8b])))), Signalled])
       (initial_diag 0) [] = (d', [line], Some 0)"
proof -
  let ?occurs = "\<lambda>_ :: string incoming. [Stdin (Read_bytes 0), Arrives (Some (Ok (Complete (Single None [104])))),
    Arrives (Some (Ok (Complete (Single (Some Gzip) [0x1f, 0x8b])))), Signalled]"
  let ?p = "process_new default_process_config"
  let ?f = "\<lambda>m. fate sample_lib sample_parse 9 ?p (plain_body m)"
  obtain d' out' code where m: "sqelf_main sample_net (gelf_process sample_lib no_inflate (\<lambda>_. 9))
      (\<lambda>_. Not_present) ?occurs (initial_diag 0) [] = (d', out', code)"
    by (metis prod_cases3)
  have app: "is_seq_app (\<lambda>_. Not_present) = False" by (simp add: is_seq_app_def)
  have fine: "fate sample_lib sample_parse 9 ?p (Some [104]) \<noteq> Crashed"
  proof (rule sample_fate_plain)
    show "chars [104] = [] \<or> hd (chars [104]) \<noteq> CHR ''{''" by code_simp
  qed
  have parsed: "sample_parse [104] \<noteq> None" by (simp add: sample_parse_def valid_utf8_ascii)
  have net: "installed (initial_diag 0) = None"
      "parse_addr sample_net (bind_addr (server_bind (cfg_server default_config))) = Ok ()"
      "start_runtime sample_net = Inr ()"
      "snd (setup_incoming sample_net (cfg_server default_config) () (initial_diag 0)) = Ok Udp_incoming"
      "sampler_joins sample_net"
    by (simp_all add: initial_diag_def sample_net_def default_config_def default_server_config_def setup_incoming_def)
  have none: "fate sample_lib sample_parse 9 ?p None = Refused" by (simp add: fate_def)
  have events: "select_events (is_seq_app (\<lambda>_. Not_present)) Chan_open (?occurs Udp_incoming) =
      [Incoming (Some (Ok (Complete (Single None [104])))),
       Incoming (Some (Ok (Complete (Single (Some Gzip) [0x1f, 0x8b])))), Ctrl_c]"
    by (simp add: app)
  have "find (stops ?f) (select_events (is_seq_app (\<lambda>_. Not_present)) Chan_open (?occurs Udp_incoming)) = Some Ctrl_c"
    using fine none by (simp add: events stops_def crashes_def plain_body_def)
  with regular_run [OF net(1) default_env net(2-4) _ sample_libraries_ok refl refl _ m] net(5)
  have "code = Some 0" "length out' = 1"
    using fine none parsed unfolding events
    by (simp_all add: served_def stops_def crashes_def plain_body_def default_config_def)
  then show ?thesis using m by (auto simp: length_Suc_conv)
qed

text \<open>
  C26: the end of standard input stops the program when Seq runs it. Start the program in a
  release build with an address it can listen on; no termination signal comes, and everything
  that arrives is a message that is printed or refused, a chunk, or an error of a chunk. Then the
  program stops, with code 0, if and only if it is run as a Seq app (\<open>SEQ_APP_ID\<close> is set) and
  the loop looks at its handle after a read of standard input that returned nothing or failed.
\<close>

theorem stdin_end_stops_server:
  assumes "installed d = None" and "from_env env = Ok cfg"
    and "parse_addr n (bind_addr (server_bind (cfg_server cfg))) = Ok addr" and "start_runtime n = Inr ()"
    and "snd (setup_incoming n (cfg_server cfg) addr d) = Ok inc"
    and "min_level (cfg_diagnostics cfg) = Debug \<longrightarrow> sampler_joins n"
    and "libraries_ok lib parse z body" and "Signalled \<notin> set (occurs inc)"
    and "\<forall>x. Arrives x \<in> set (occurs inc) \<longrightarrow>
      \<not> stops (\<lambda>m. fate lib parse (now m) (process_new (cfg_process cfg)) (body m)) (Incoming x)"
    and "sqelf_main n (gelf_process lib z now) env occurs d out = (d', out', code)"
  shows "code = (if is_seq_app env \<and> closed_after_end (occurs inc) then Some 0 else None)"
proof -
  let ?f = "\<lambda>m. fate lib parse (now m) (process_new (cfg_process cfg)) (body m)"
  let ?events = "select_events (is_seq_app env) Chan_open (occurs inc)"
  obtain d3 d4 ctl where loop: "server_loop (gelf_process lib z now (process_new (cfg_process cfg)))
      ?events d3 out = (d4, out', ctl)" and code: "code = exit_code ctl"
    using main_served [OF assms(1-6,10)] by blast
  have "\<forall>ev \<in> set ?events. stops ?f ev \<longrightarrow> ev = Handle_closed"
    using set_select_events [of "is_seq_app env" Chan_open "occurs inc"] assms(8,9) by blast
  moreover have "stops ?f Handle_closed" by (simp add: stops_def)
  ultimately have "find (stops ?f) ?events = (if Handle_closed \<in> set ?events then Some Handle_closed else None)"
    by (rule find_only)
  with gelf_printer.loop_run [OF libraries_ok_all [OF assms(7)] loop] code select_events_open [of "is_seq_app env" "occurs inc"]
  show ?thesis by (auto split: if_splits)
qed

theorem stdin_end_stops_server_witness:
  "snd (snd (sqelf_main sample_net (gelf_process sample_lib no_inflate (\<lambda>_. 9))
     ((\<lambda>_. Not_present)(''SEQ_APP_ID'' := Var ''app-1''))
     (\<lambda>_. [Stdin (Read_bytes 1), Arrives (Some (Ok Incomplete)), Stdin (Read_bytes 0), Close_polled])
     (initial_diag 0) [])) = Some 0"
proof -
  let ?env = "(\<lambda>_. Not_present)(''SEQ_APP_ID'' := Var ''app-1'')"
  let ?occurs = "\<lambda>_ :: string incoming.
    [Stdin (Read_bytes 1), Arrives (Some (Ok Incomplete)), Stdin (Read_bytes 0), Close_polled]"
  have env: "from_env ?env = Ok default_config" and app: "is_seq_app ?env"
    by (simp_all add: from_env_def Let_def is_seq_app_def read_environment_def is_truthy_def
        certificate_from_env_def is_present_def default_config_def)
  obtain d' out' code where m: "sqelf_main sample_net (gelf_process sample_lib no_inflate (\<lambda>_. 9))
      ?env ?occurs (initial_diag 0) [] = (d', out', code)"
    by (metis prod_cases3)
  from stdin_end_stops_server [OF _ env _ _ _ _ sample_libraries_ok _ _ m, of "()" Udp_incoming] m app
  show ?thesis
    by (simp add: initial_diag_def default_config_def setup_incoming_def default_server_config_def
        sample_net_def stops_def crashes_def read_ends_def)
qed

end
