(* ===== verification/Udp_Serve.thy ===== *)
theory Udp_Serve
  imports Sqelf_Main
begin

text \<open>
  The UDP side of the program as one machine: a datagram goes through the decoder of
  \<open>udp.rs\<close> and of \<open>receive.rs\<close>, what it gives is an event of the server loop, and a
  complete message goes through the processor to standard output.
\<close>

section \<open>Datagrams to output\<close>

fun udp_serve ::
  "('c \<Rightarrow> 'r receive_fn) \<Rightarrow> 'w process_fn \<Rightarrow> ('c \<times> bytes) list \<Rightarrow> diag \<Rightarrow> 'r \<Rightarrow> 'w \<Rightarrow>
   diag \<times> 'r \<times> 'w \<times> control" where
  "udp_serve recv process [] d r w = (d, r, w, Continue)"
| "udp_serve recv process ((c, src) # ins) d r w =
     (case udp_decode (recv c) d r src of
        (d, r, _, Ok None) \<Rightarrow> udp_serve recv process ins d r w
      | (d, r, _, Ok (Some x)) \<Rightarrow>
          (case server_step process (Incoming (Some (Ok x))) d w of
             (d, w, Continue) \<Rightarrow> udp_serve recv process ins d r w
           | (d, w, ctl) \<Rightarrow> (d, r, w, ctl))
      | (d, r, _, Err e) \<Rightarrow>
          (case server_step process (Incoming (Some (Err e))) d w of (d, w, ctl) \<Rightarrow> (d, r, w, ctl))
      | (d, r, _, Panic p) \<Rightarrow> (d, r, w, Unwind p))"

text \<open>What the decoder returns does not depend on the diagnostics.\<close>

lemma gc_diag: "snd (gc now d g) = snd (gc now d0 g)"
  by (simp add: gc_def Let_def split: outcome.splits)

lemma push_diag: "snd (push now d g h c) = snd (push now d0 g h c)"
  by (simp add: push_def Let_def split: option.splits prod.splits outcome.splits)

lemma chunked_diag: "snd (chunked dbg clk d g src) = snd (chunked dbg clk d0 g src)"
proof -
  obtain d1 g1 r where 1: "gc (clock_gc clk) d g = (d1, g1, r)" by (metis prod_cases3)
  obtain d2 where 2: "gc (clock_gc clk) d0 g = (d2, g1, r)"
    using gc_diag [of "clock_gc clk" d g d0] 1 by (metis prod.collapse snd_conv)
  show ?thesis
    unfolding chunked_def 1 2 using push_diag
    by (auto split: outcome.splits prod.splits)
qed

lemma decode_diag: "snd (decode dbg clk d g src) = snd (decode dbg clk d0 g src)"
  using chunked_diag by (simp add: decode_def Let_def)

text \<open>The messages among the results of the decoder.\<close>

definition messages :: "message option result list \<Rightarrow> message list" where
  "messages rs = concat (map (\<lambda>r. case r of Ok (Some m) \<Rightarrow> [m] | _ \<Rightarrow> []) rs)"

lemma messages_simps [simp]:
  "messages [] = []" "messages (Ok (Some m) # rs) = m # messages rs"
  "messages (Ok None # rs) = messages rs" "messages (Err e # rs) = messages rs"
  "messages (rs @ rs') = messages rs @ messages rs'"
  by (simp_all add: messages_def)

text \<open>The messages of a run up to the first that crashes.\<close>

definition before_crash :: "(message \<Rightarrow> fate) \<Rightarrow> message list \<Rightarrow> message list" where
  "before_crash f ms = takeWhile (\<lambda>m. f m \<noteq> Crashed) ms"

lemma before_crash_simps [simp]:
  "before_crash f [] = []"
  "before_crash f (m # ms) = (if f m = Crashed then [] else m # before_crash f ms)"
  by (simp_all add: before_crash_def)

text \<open>An empty datagram gives nothing.\<close>

abbreviation filled :: "('c \<times> bytes) list \<Rightarrow> ('c \<times> bytes) list" where
  "filled ins \<equiv> filter (\<lambda>(clk, src). src \<noteq> []) ins"

context printer
begin

text \<open>The output of a run is that of its messages, in order, up to the first that crashes.\<close>

lemma udp_serve_output:
  assumes "\<forall>(clk, src) \<in> set ins. \<not> clock_underflow (config g) clk"
    and "decode_run False d0 g (filled ins) = (d1, g', rs)" and "\<forall>m \<in> set (messages rs). sound m"
    and "udp_serve (decode False) process ins d g out = (d', g'', out', ctl)"
  shows "run_ends (map fate_of (messages rs)) ctl \<and> (ctl = Continue \<longrightarrow> g'' = g') \<and>
    out' = out @ concat (map lines (before_crash fate_of (messages rs)))"
  using assms
proof (induction ins arbitrary: d d0 g out rs)
  case Nil
  then show ?case by (simp add: run_ends_def)
next
  case (Cons i ins)
  obtain clk src where i: "i = (clk, src)" by fastforce
  show ?case
  proof (cases "src = []")
    case True
    with Cons.IH [of g d0 rs d out] Cons.prems show ?thesis by (auto simp: i udp_decode_def)
  next
    case src: False
    obtain d2 g1 r where step: "decode False clk d g src = (d2, g1, r)" by (metis prod_cases3)
    obtain d3 where step0: "decode False clk d0 g src = (d3, g1, r)"
      using decode_diag [of False clk d0 g src d] step by (metis prod.collapse snd_conv)
    obtain rs' where rest: "decode_run False d3 g1 (filled ins) = (d1, g', rs')" and rs: "rs = r # rs'"
      using Cons.prems(2) step0 src by (auto simp: i split: prod.splits)
    have np: "\<not> panics r"
      using Cons.prems(1) decode_no_panic [OF _ step] by (auto simp: i)
    have rest_ok: "\<forall>(clk, src) \<in> set ins. \<not> clock_underflow (config g1) clk"
      using Cons.prems(1) decode_frame [OF step] by auto
    have sound: "\<forall>m \<in> set (messages rs'). sound m"
      using Cons.prems(3) by (auto simp: rs messages_def)
    note go = Cons.IH [OF rest_ok rest sound]
    show ?thesis
    proof (cases r rule: into_received.cases)
      case (1 m)
      then have "sound m" using Cons.prems(3) by (simp add: rs)
      then obtain d4 ctl1 where
        "server_step process (Incoming (Some (Ok (Complete m)))) d2 out = (d4, out @ lines m, ctl1)"
        and ctl1: "run_ends [fate_of m] ctl1"
        using item_step [of "Complete m" d2 out] by auto
      with Cons.prems(4) src 1 step show ?thesis
        using go [of d4 "out @ lines m"] by (cases "fate_of m = Crashed") (auto simp: i udp_decode_def rs run_ends_def)
    next
      case (4 p)
      with np show ?thesis by simp
    qed (use Cons.prems(4) src step go in \<open>auto simp: i udp_decode_def rs\<close>)
  qed
qed

end

lemma results_for_all:
  "length rs = length ins \<Longrightarrow> \<forall>(clk, src) \<in> set ins. chunk_of i src \<Longrightarrow> results_for i ins rs = rs"
proof (induction ins arbitrary: rs)
  case (Cons a ins)
  then show ?case by (cases rs) auto
qed simp

lemma decode_run_length: "decode_run dbg d g ins = (d', g', rs) \<Longrightarrow> length rs = length ins"
  by (induction ins arbitrary: d g rs) (auto split: prod.splits)

text \<open>The chunks of a message, each once and in any order: what they decode to, and what they print.\<close>

lemma chunks_decoded:
  assumes "1 < n" and "n \<le> max_chunks_per_message cfg"
    and "unat n \<le> unat (incomplete_capacity cfg)"
    and "\<forall>clk \<in> set clks. clock_ok cfg clk \<and> in_window cfg start clk"
    and "length clks = length ks" and "distinct ks" and "set ks = of_nat ` {..<unat n}"
    and run: "decode_run dbg d (gelf_new cfg) (zip clks (map (\<lambda>k. udp_chunk i k n (part k)) ks)) = (d1, g1, rs)"
  shows "rs = replicate (unat n - 1) (Ok None) @ [Ok (Some (Chunked (map (\<lambda>j. part (of_nat j)) [0..<unat n])))]"
proof -
  let ?ins = "zip clks (map (\<lambda>k. udp_chunk i k n (part k)) ks)"
  have inj: "inj_on (of_nat :: nat \<Rightarrow> u8) {..<unat n}"
    using unat_u8_less [of n] by (auto simp: inj_on_def word_unat_eq_iff unat_of_nat)
  have len: "length ks = unat n"
    using distinct_card [OF assms(6)] by (simp add: assms(7) card_image [OF inj])
  have chunk: "\<exists>k. src = udp_chunk i k n (part k)" if "(clk, src) \<in> set ?ins" for clk src
    using set_zip_rightD [OF that] by auto
  have "filter (\<lambda>(clk, src). chunk_of i src) ?ins = ?ins"
    using chunk by (fastforce simp: filter_id_conv)
  then have mine: "map snd (filter (\<lambda>(clk, src). chunk_of i src) ?ins) =
      map (\<lambda>k. udp_chunk i k n (part k)) ks"
    using assms(5) by simp
  have room: "length ?ins \<le> unat (incomplete_capacity cfg)"
    using assms(3,5) len by simp
  have clocks: "\<forall>(clk, src) \<in> set ?ins. clock_ok cfg clk \<and> in_window cfg start clk"
    using assms(4) by (auto dest: set_zip_leftD)
  have "results_for i ?ins rs = rs"
    using decode_run_length [OF run] chunk by (intro results_for_all) fastforce+
  with decode_run_reassembles [where dbg = dbg and d = d, OF assms(1,2) room clocks mine assms(6,7)] run
  show ?thesis by simp
qed

lemma chunks_to_output:
  assumes chunks: "1 < n" "n \<le> max_chunks_per_message cfg" "unat n \<le> unat (incomplete_capacity cfg)"
      "\<forall>clk \<in> set clks. clock_ok cfg clk \<and> in_window cfg start clk"
      "length clks = length ks" "distinct ks" "set ks = of_nat ` {..<unat n}"
    and m: "m = Chunked (map (\<lambda>j. part (of_nat j)) [0..<unat n])"
    and "formats_ok lib parse" and "contents (message_mem z) m b"
    and run: "udp_serve (decode False) (gelf_process lib z now p)
      (zip clks (map (\<lambda>k. udp_chunk i k n (part k)) ks)) d (gelf_new cfg) out = (d', g', out', ctl)"
  shows "run_ends [fate lib parse (now m) p b] ctl \<and> out' = out @ fate_lines (fate lib parse (now m) p b)"
proof -
  let ?ins = "zip clks (map (\<lambda>k. udp_chunk i k n (part k)) ks)"
  obtain d1 g1 rs where rs: "decode_run False d (gelf_new cfg) ?ins = (d1, g1, rs)" by (metis prod_cases3)
  have ms: "messages rs = [m]"
    using chunks_decoded [OF chunks rs] by (simp add: m messages_def)
  have "\<forall>(clk, src) \<in> set ?ins. src \<noteq> [] \<and> \<not> clock_underflow (config (gelf_new cfg)) clk"
    using chunks(4)
    by (fastforce simp: udp_chunk_def clock_ok_def clock_underflow_def gelf_new_def
        dest: set_zip_leftD set_zip_rightD)
  then have "filled ?ins = ?ins" "\<forall>(clk, src) \<in> set ?ins. \<not> clock_underflow (config (gelf_new cfg)) clk"
    by (auto simp: filter_id_conv)
  with gelf_printer.udp_serve_output [OF this(2) _ _ run, of d d1 g1 rs parse "\<lambda>_. b"] rs ms assms(9,10)
  show ?thesis by (auto simp: run_ends_def split: if_splits)
qed

text \<open>A payload in one datagram.\<close>

lemma datagram_to_output:
  assumes "clock_ok cfg clk" and "whole \<noteq> []" and "peek_magic_bytes whole \<noteq> Some MAGIC_CHUNKED"
    and m: "m = Single (Option.bind (peek_magic_bytes whole) detect) whole"
    and "formats_ok lib parse" and "contents (message_mem z) m b"
    and run: "udp_serve (decode False) (gelf_process lib z now p) [(clk, whole)] d (gelf_new cfg) out =
      (d', g', out', ctl)"
  shows "run_ends [fate lib parse (now m) p b] ctl \<and> out' = out @ fate_lines (fate lib parse (now m) p b)"
proof -
  have "decode_run False d (gelf_new cfg) [(clk, whole)] =
      (increment (Receive M_msg_unchunked) d, gelf_new cfg, [Ok (Some m)])"
    using assms(2,3) by (simp add: m decode_def Let_def single_def)
  moreover have "\<not> clock_underflow (config (gelf_new cfg)) clk"
    using assms(1) by (auto simp: clock_ok_def clock_underflow_def gelf_new_def)
  ultimately show ?thesis
    using gelf_printer.udp_serve_output [OF _ _ _ run, of d _ "gelf_new cfg" "[Ok (Some m)]" parse "\<lambda>_. b"] assms(2,5,6)
    by (auto simp: run_ends_def split: if_splits)
qed

text \<open>Two bytes of the first chunk are the first two of the payload.\<close>

lemma peek_first_piece:
  "2 \<le> length first \<Longrightarrow> peek_magic_bytes (first @ rest) = peek_magic_bytes first"
  by (auto simp: peek_magic_bytes_def nth_append)

text \<open>A payload that is not compressed is not compressed when it is cut into chunks either.\<close>

lemma uncompressed_chunks:
  assumes "Option.bind (peek_magic_bytes (concat parts)) detect = None"
  shows "message_compression (Chunked parts) = None"
proof (cases parts)
  case (Cons first rest)
  show ?thesis
  proof (cases "2 \<le> length first")
    case True
    then have "peek_magic_bytes (concat parts) = peek_magic_bytes first"
      using peek_first_piece [of first "concat rest"] by (simp add: Cons)
    with assms Cons show ?thesis by simp
  qed (simp add: Cons peek_magic_bytes_def)
qed simp

section \<open>Properties\<close>

text \<open>
  C11: from datagrams to output. Feed any datagrams, empty and damaged ones included, to the
  whole UDP side of the program in a release build, with a clock that does not underflow. The
  messages that the decoder completes are handled in that order: the output grows by exactly
  one line for each that parses and by nothing for one that does not parse or cannot be
  decompressed, up to the first message that crashes because the time of its event cannot be
  printed. With no such message the loop is still running afterwards and the decoder is in the
  state that the datagrams alone determine; such a message unwinds the loop. Errors of single
  datagrams change nothing.
\<close>

theorem udp_output:
  assumes "\<forall>(clk, src) \<in> set ins. \<not> clock_underflow (config g) clk"
    and "decode_run False d g (filter (\<lambda>(clk, src). src \<noteq> []) ins) = (d1, g1, rs)"
    and "libraries_ok lib parse z body"
    and "f = (\<lambda>m. fate lib parse (now m) p (body m))"
    and "udp_serve (decode False) (gelf_process lib z now p) ins d g out = (d', g', out', ctl)"
  shows "out' = out @ concat (map (\<lambda>m. fate_lines (f m)) (takeWhile (\<lambda>m. f m \<noteq> Crashed) (messages rs))) \<and>
    (if \<exists>m \<in> set (messages rs). f m = Crashed then \<exists>q. ctl = Unwind q else ctl = Continue \<and> g' = g1) \<and>
    (\<forall>m. f m \<noteq> Crashed \<longrightarrow>
       length (fate_lines (f m)) = (if Option.bind (body m) parse = None then 0 else 1))"
proof -
  have "run_ends (map f (messages rs)) ctl \<and> (ctl = Continue \<longrightarrow> g' = g1) \<and>
      out' = out @ concat (map (\<lambda>m. fate_lines (f m)) (before_crash f (messages rs)))"
    using gelf_printer.udp_serve_output [OF assms(1,2) _ assms(5), of parse body] libraries_ok_all [OF assms(3)]
    unfolding assms(4) by blast
  moreover have "length (fate_lines (f m)) = (if Option.bind (body m) parse = None then 0 else 1)"
    if "f m \<noteq> Crashed" for m
    using fate_lines_length [of lib parse "now m" p "body m"] that assms(3,4)
    by (simp add: libraries_ok_def formats_ok_def)
  ultimately show ?thesis
    by (auto simp: run_ends_def before_crash_def image_iff split: if_splits)
qed

text \<open>Two plain messages, one empty datagram and one that claims to be gzip.\<close>

theorem udp_output_witness:
  "\<exists>d' g' line1 line2.
     udp_serve (decode False) (gelf_process sample_lib no_inflate (\<lambda>_. 9) (process_new default_process_config))
       [(example_clock, [104]), (example_clock, []), (example_clock, [0x1f, 0x8b]), (example_clock, [105])]
       (initial_diag 0) (gelf_new default_receive_config) [] =
     (d', g', [line1, line2], Continue)"
proof -
  let ?ins = "[(example_clock, [104]), (example_clock, []), (example_clock, [0x1f, 0x8b]), (example_clock, [105])]"
  let ?p = "process_new default_process_config"
  let ?f = "\<lambda>m. fate sample_lib sample_parse 9 ?p (plain_body m)"
  obtain d' g' out' ctl where run: "udp_serve (decode False) (gelf_process sample_lib no_inflate (\<lambda>_. 9) ?p)
      ?ins (initial_diag 0) (gelf_new default_receive_config) [] = (d', g', out', ctl)"
    by (metis prod_cases4)
  have dec: "snd (snd (decode_run False (initial_diag 0) (gelf_new default_receive_config)
      (filter (\<lambda>(clk, src). src \<noteq> []) ?ins))) =
      [Ok (Some (Single None [104])), Ok (Some (Single (Some Gzip) [0x1f, 0x8b])), Ok (Some (Single None [105]))]"
    by (simp add: decode_def Let_def peek_magic_bytes_def single_def detect_def MAGIC_GZIP_def MAGIC_CHUNKED_def)
  obtain d1 g1 rs where rs: "decode_run False (initial_diag 0) (gelf_new default_receive_config)
      (filter (\<lambda>(clk, src). src \<noteq> []) ?ins) = (d1, g1, rs)"
    by (metis prod_cases3)
  have clk: "\<not> clock_underflow (config (gelf_new default_receive_config)) example_clock"
    by (simp add: clock_underflow_def gelf_new_def default_receive_config_def example_clock_def from_millis_def)
  have fine: "fate sample_lib sample_parse 9 ?p (Some [104]) \<noteq> Crashed"
    "fate sample_lib sample_parse 9 ?p (Some [105]) \<noteq> Crashed"
    by (rule sample_fate_plain, code_simp)+
  have none: "fate sample_lib sample_parse 9 ?p None = Refused" by (simp add: fate_def)
  have parsed: "sample_parse [104] \<noteq> None" "sample_parse [105] \<noteq> None"
    by (simp_all add: sample_parse_def valid_utf8_ascii)
  note out = udp_output [OF _ rs sample_libraries_ok refl run]
  have "length (fate_lines (fate sample_lib sample_parse 9 ?p (Some bs))) = 1"
    if "fate sample_lib sample_parse 9 ?p (Some bs) \<noteq> Crashed" "sample_parse bs \<noteq> None" for bs
    using out clk that by (auto simp: plain_body_def dest!: spec [of _ "Single None bs"])
  from this [OF fine(1) parsed(1)] this [OF fine(2) parsed(2)]
  obtain line1 line2 where
    "fate_lines (fate sample_lib sample_parse 9 ?p (Some [104])) = [line1]"
    "fate_lines (fate sample_lib sample_parse 9 ?p (Some [105])) = [line2]"
    by (auto simp: length_Suc_conv)
  moreover have "rs = [Ok (Some (Single None [104])), Ok (Some (Single (Some Gzip) [0x1f, 0x8b])),
      Ok (Some (Single None [105]))]" using dec rs by simp
  ultimately show ?thesis
    using out run clk fine none by (simp add: plain_body_def)
qed

text \<open>
  C5: chunking makes no difference. A payload that is not compressed and does not itself look
  like a chunk is cut into chunks, which are sent as datagrams in any order, each once, within
  the timeout; or it is sent as one datagram. In a release build both runs of the program do
  the same: the output grows by the line of its event if it parses and by nothing otherwise,
  and the loop goes on, except that it unwinds if the time of the event cannot be printed. (A
  payload is taken to be compressed if its first two bytes say so.)
\<close>

theorem chunked_message_end_to_end:
  assumes "1 < n" and "n \<le> max_chunks_per_message cfg"
    and "unat n \<le> unat (incomplete_capacity cfg)"
    and "\<forall>clk \<in> set clks. clock_ok cfg clk \<and> in_window cfg start clk"
    and "length clks = length ks" and "distinct ks" and "set ks = of_nat ` {..<unat n}"
    and "formats_ok lib parse"
    and "whole = concat (map (\<lambda>j. part (of_nat j)) [0..<unat n])" and "whole \<noteq> []"
    and "peek_magic_bytes whole \<noteq> Some MAGIC_CHUNKED" and "Option.bind (peek_magic_bytes whole) detect = None"
    and "udp_serve (decode False) (gelf_process lib z (\<lambda>_. t) p)
      (zip clks (map (\<lambda>k. udp_chunk i k n (part k)) ks)) d (gelf_new cfg) out = (d1, g1, out1, ctl1)"
    and "clock_ok cfg clk"
    and "udp_serve (decode False) (gelf_process lib z (\<lambda>_. t) p) [(clk, whole)] d (gelf_new cfg) out =
      (d2, g2, out2, ctl2)"
  shows "out1 = out @ fate_lines (fate lib parse t p (Some whole)) \<and> out2 = out1 \<and>
    (if fate lib parse t p (Some whole) = Crashed then (\<exists>q. ctl1 = Unwind q) \<and> (\<exists>q. ctl2 = Unwind q)
     else ctl1 = Continue \<and> ctl2 = Continue)"
proof -
  let ?m = "Chunked (map (\<lambda>j. part (of_nat j)) [0..<unat n])"
  have "contents (message_mem z) ?m (Some whole)"
    using message_mem.readable_reads [OF uncompressed_chunks, of "map (\<lambda>j. part (of_nat j)) [0..<unat n]" z]
      assms(9,12) by (simp add: contents_def)
  note chunked = chunks_to_output [OF assms(1-7) refl assms(8) this assms(13)]
  have "contents (message_mem z) (Single (Option.bind (peek_magic_bytes whole) detect) whole) (Some whole)"
    using message_mem.readable_reads [of "Single None whole" z] assms(12) by (simp add: contents_def)
  note single = datagram_to_output [OF assms(14,10,11) refl assms(8) this assms(15)]
  from chunked single show ?thesis by (auto simp: run_ends_def)
qed

theorem chunked_message_end_to_end_witness:
  "\<exists>d1 g1 out1 ctl1 d2 g2 out2 ctl2.
     udp_serve (decode False) (gelf_process sample_lib no_inflate (\<lambda>_. 9) (process_new default_process_config))
       [(example_clock, udp_chunk 7 1 2 [105]), (example_clock, udp_chunk 7 0 2 [104])]
       (initial_diag 0) (gelf_new default_receive_config) [] = (d1, g1, out1, ctl1) \<and>
     udp_serve (decode False) (gelf_process sample_lib no_inflate (\<lambda>_. 9) (process_new default_process_config))
       [(example_clock, [104, 105])] (initial_diag 0) (gelf_new default_receive_config) [] = (d2, g2, out2, ctl2) \<and>
     ctl1 = Continue \<and> ctl2 = Continue \<and> out1 = out2 \<and>
     out1 = fate_lines (fate sample_lib sample_parse 9 (process_new default_process_config) (Some [104, 105]))"
proof -
  let ?part = "\<lambda>k :: u8. if k = 0 then [104] else [105] :: bytes"
  let ?p = "process_new default_process_config"
  let ?serve = "\<lambda>ins. udp_serve (decode False) (gelf_process sample_lib no_inflate (\<lambda>_. 9) ?p) ins
      (initial_diag 0) (gelf_new default_receive_config) []"
  obtain d1 g1 out1 ctl1 where run1:
    "?serve (zip [example_clock, example_clock] (map (\<lambda>k. udp_chunk 7 k 2 (?part k)) [1, 0])) = (d1, g1, out1, ctl1)"
    using prod_cases4 by blast
  obtain d2 g2 out2 ctl2 where run2: "?serve [(example_clock, [104, 105])] = (d2, g2, out2, ctl2)"
    using prod_cases4 by blast
  have "{..<unat (2 :: u8)} = {0, 1}" by auto
  then have sets: "set [1, 0] = (of_nat :: nat \<Rightarrow> u8) ` {..<unat (2 :: u8)}" by auto
  have whole: "[104, 105] = concat (map (\<lambda>j. ?part (of_nat j)) [0..<unat (2 :: u8)])"
    by (simp add: upt_rec)
  have ok: "formats_ok sample_lib sample_parse" using sample_libraries_ok by (simp add: libraries_ok_def)
  have fine: "fate sample_lib sample_parse 9 ?p (Some [104, 105]) \<noteq> Crashed"
    by (rule sample_fate_plain) code_simp
  have "out1 = [] @ fate_lines (fate sample_lib sample_parse 9 ?p (Some [104, 105])) \<and> out2 = out1 \<and>
      (if fate sample_lib sample_parse 9 ?p (Some [104, 105]) = Crashed
       then (\<exists>q. ctl1 = Unwind q) \<and> (\<exists>q. ctl2 = Unwind q) else ctl1 = Continue \<and> ctl2 = Continue)"
    by (rule chunked_message_end_to_end [OF _ _ _ _ _ _ sets ok whole _ _ _ run1 _ run2])
      (use example_clock_ok in \<open>auto simp: default_receive_config_def peek_magic_bytes_def detect_def
        MAGIC_CHUNKED_def MAGIC_GZIP_def MAGIC_ZLIB_def\<close>)
  with run1 run2 fine show ?thesis by simp
qed

end
