(* ===== verification/Tcp_History.thy ===== *)
theory Tcp_History
  imports Tcp_Conn Udp_Serve "HOL-Library.Sublist"
begin

text \<open>
  The history of a connection: the frames its receiver was given, each with the reading of
  the clock it saw. The state of a connection follows from its history and from the reads
  it has used up; polling it extends the history by a frame of what the peer sends, in order.
\<close>

section \<open>What a socket sends\<close>

fun stream_of :: "bool \<Rightarrow> (error + bytes) list \<Rightarrow> bytes \<times> bool" where
  "stream_of quiet [] = ([], False)"
| "stream_of quiet (r # rs) =
     (case read_answer quiet r of
        Inr bs \<Rightarrow>
          if bs = [] then ([], True)
          else (case stream_of quiet rs of (bs', closed) \<Rightarrow> (bs @ bs', closed))
      | Inl e \<Rightarrow> ([], False))"

definition socket_frames :: "bool \<Rightarrow> usize \<Rightarrow> socket \<Rightarrow> bytes list" where
  "socket_frames quiet m s =
     (case stream_of quiet (sock_reads s) of (bs, closed) \<Rightarrow> stream_frames m bs closed)"

definition fails :: "bool \<Rightarrow> (error + bytes) list \<Rightarrow> bool" where
  "fails quiet rs \<longleftrightarrow> (\<exists>r \<in> set rs. \<exists>e. read_answer quiet r = Inl e)"

lemma fails_simps [simp]:
  "\<not> fails quiet []"
  "fails quiet (r # rs) \<longleftrightarrow> (\<exists>e. read_answer quiet r = Inl e) \<or> fails quiet rs"
  "fails quiet (rs @ rs') \<longleftrightarrow> fails quiet rs \<or> fails quiet rs'"
  by (auto simp: fails_def)

lemma stream_of_append:
  assumes "\<not> fails quiet used"
  shows "stream_of quiet (used @ rs) =
    (if snd (stream_of quiet used) then stream_of quiet used
     else (fst (stream_of quiet used) @ fst (stream_of quiet rs), snd (stream_of quiet rs)))"
  using assms by (induction used) (auto split: sum.splits prod.splits)

lemma stream_frames_mono:
  "prefix (stream_frames m bs False) (stream_frames m (bs @ bs') closed)"
proof -
  obtain fs skip rest where a: "all_frames (unat m) False bs = (fs, skip, rest)"
    by (metis prod_cases3)
  obtain fs' skip' rest' where b: "all_frames (unat m) skip (rest @ bs') = (fs', skip', rest')"
    by (metis prod_cases3)
  have "all_frames (unat m) False (bs @ bs') = (fs @ fs', skip', rest')"
    using all_frames_append [of "unat m" False bs bs'] a b by simp
  with stream_frames_all [OF a, of False] show ?thesis
    by (simp add: stream_frames_all)
qed

section \<open>Histories\<close>

type_synonym history = "(clock \<times> bytes) list"

definition receiver_after :: "receive_config \<Rightarrow> history \<Rightarrow> gelf" where
  "receiver_after cfg h = fst (snd (decode_run False (initial_diag 0) (gelf_new cfg) h))"

definition outcomes :: "receive_config \<Rightarrow> history \<Rightarrow> message option result list" where
  "outcomes cfg h = snd (snd (decode_run False (initial_diag 0) (gelf_new cfg) h))"

lemma decode_run_snoc:
  "decode_run dbg d g (h @ [(clk, b)]) =
   (case decode_run dbg d g h of (d1, g1, rs) \<Rightarrow>
      (case decode dbg clk d1 g1 b of (d2, g2, r) \<Rightarrow> (d2, g2, rs @ [r])))"
  by (induction dbg d g h rule: decode_run.induct) (auto split: prod.splits)

lemma history_simps [simp]:
  "receiver_after cfg [] = gelf_new cfg" "outcomes cfg [] = []"
  by (simp_all add: receiver_after_def outcomes_def)

lemma history_snoc:
  assumes "decode False clk d (receiver_after cfg h) b = (d', g', r)"
  shows "receiver_after cfg (h @ [(clk, b)]) = g'" "outcomes cfg (h @ [(clk, b)]) = outcomes cfg h @ [r]"
proof -
  obtain d1 g1 rs where h: "decode_run False (initial_diag 0) (gelf_new cfg) h = (d1, g1, rs)"
    by (metis prod_cases3)
  then have "snd (decode False clk d1 g1 b) = (g', r)"
    using decode_diag [of False clk d1 g1 b d] assms by (simp add: receiver_after_def)
  then show "receiver_after cfg (h @ [(clk, b)]) = g'"
    "outcomes cfg (h @ [(clk, b)]) = outcomes cfg h @ [r]"
    using h by (auto simp: receiver_after_def outcomes_def decode_run_snoc split: prod.splits)
qed

lemma config_receiver_after [simp]: "config (receiver_after cfg h) = cfg"
proof (induction h rule: rev_induct)
  case Nil
  show ?case by (simp add: gelf_new_def)
next
  case (snoc i h)
  obtain clk b where i: "i = (clk, b)" by fastforce
  obtain d' g' r where run: "decode False clk (initial_diag 0) (receiver_after cfg h) b = (d', g', r)"
    by (metis prod_cases3)
  from history_snoc(1) [OF run] decode_frame(1) [OF run] snoc show ?case by (simp add: i)
qed

section \<open>The state of a connection\<close>

definition conn_state ::
  "bool \<Rightarrow> usize \<Rightarrow> receive_config \<Rightarrow> socket \<Rightarrow> history \<Rightarrow> (socket, gelf) framed \<Rightarrow> bool" where
  "conn_state quiet m cfg s h f \<longleftrightarrow>
     sock_id (fr_conn f) = sock_id s \<and> receive_state (fr_decoder f) = receiver_after cfg h \<and>
     (\<exists>used. sock_reads s = used @ sock_reads (fr_conn f) \<and> \<not> fails quiet used \<and>
        fr_eof f = snd (stream_of quiet used) \<and>
        conn_inv m (fst (stream_of quiet used)) (map snd h) f)"

lemma conn_inv_conn [simp]: "conn_inv m past hs (f\<lparr>fr_conn := k\<rparr>) = conn_inv m past hs f"
  by (simp add: conn_inv_def pending_def)

lemma conn_state_id: "conn_state quiet m cfg s h f \<Longrightarrow> sock_id (fr_conn f) = sock_id s"
  by (simp add: conn_state_def)

lemma conn_state_new: "conn_state quiet m cfg s [] (framed_new s (tcp_decode_new m (gelf_new cfg)))"
  by (auto simp: conn_state_def conn_inv_new intro!: exI [of _ "[]"])
    (simp_all add: framed_new_def tcp_decode_new_def)

lemma conn_state_prefix:
  assumes "conn_state quiet m cfg s h f"
  shows "prefix (map snd h) (socket_frames quiet m s)"
    and "fr_eof f \<Longrightarrow> pending f = [] \<Longrightarrow> map snd h = socket_frames quiet m s"
proof -
  obtain used where used: "sock_reads s = used @ sock_reads (fr_conn f)" "\<not> fails quiet used"
    "fr_eof f = snd (stream_of quiet used)" "conn_inv m (fst (stream_of quiet used)) (map snd h) f"
    using assms by (auto simp: conn_state_def)
  have frames: "stream_frames m (fst (stream_of quiet used)) (fr_eof f) = map snd h @ pending f"
    using used(4) by (simp add: conn_inv_def)
  show "prefix (map snd h) (socket_frames quiet m s)"
  proof (cases "fr_eof f")
    case True
    with used frames show ?thesis
      by (simp add: socket_frames_def stream_of_append case_prod_unfold)
  next
    case False
    have "prefix (map snd h) (stream_frames m (fst (stream_of quiet used)) False)"
      using frames False by simp
    with used(1,2,3) False stream_frames_mono show ?thesis
      by (simp add: socket_frames_def stream_of_append case_prod_unfold)
        (meson prefix_order.trans stream_frames_mono)
  qed
  show "map snd h = socket_frames quiet m s" if "fr_eof f" "pending f = []"
    using used frames that by (simp add: socket_frames_def stream_of_append case_prod_unfold)
qed

definition item_ok :: "receive_config \<Rightarrow> history \<Rightarrow> clock \<times> bytes \<Rightarrow> received \<Rightarrow> bool" where
  "item_ok cfg h i x \<longleftrightarrow>
     (\<exists>y. outcomes cfg (h @ [i]) = outcomes cfg h @ [y] \<and> received_of y = Ok x)"

text \<open>
  What a poll can answer. An item is what the receiver makes of one more frame; the stream
  ends after the last frame; an error is a read that failed.
\<close>

definition poll_ok ::
  "bool \<Rightarrow> usize \<Rightarrow> receive_config \<Rightarrow> socket \<Rightarrow> history \<Rightarrow> (socket, gelf) framed \<Rightarrow>
   received result option poll \<Rightarrow> bool" where
  "poll_ok quiet m cfg s h f r \<longleftrightarrow>
     (case r of
        Pending \<Rightarrow> conn_state quiet m cfg s h f
      | Ready None \<Rightarrow> map snd h = socket_frames quiet m s
      | Ready (Some (Ok x)) \<Rightarrow>
          (\<exists>i. conn_state quiet m cfg s (h @ [i]) f \<and> item_ok cfg h i x)
      | Ready (Some (Err e)) \<Rightarrow> fails quiet (sock_reads s)
      | Ready (Some (Panic p)) \<Rightarrow> False) \<and>
     sock_id (fr_conn f) = sock_id s"

definition safe_action :: "receive_config \<Rightarrow> clock action \<Rightarrow> bool" where
  "safe_action cfg a \<longleftrightarrow> (\<forall>clk. a = Decode clk \<longrightarrow> \<not> clock_underflow cfg clk)"

lemma into_received_of:
  assumes "\<not> panics x"
  obtains y where "into_received x = Ok (Some y)" "received_of x = Ok y"
  using assms by (cases x rule: into_received.cases) (auto simp: received_of_def)

lemma read_state:
  assumes "conn_state quiet m cfg s h f" and "\<not> fr_eof f" and "sock_reads (fr_conn f) = r # rs"
  shows "case read_answer quiet r of
      Inr bs \<Rightarrow> conn_state quiet m cfg s h
        (if bs = [] then f\<lparr>fr_conn := (fr_conn f)\<lparr>sock_reads := rs\<rparr>, fr_eof := True\<rparr>
         else f\<lparr>fr_conn := (fr_conn f)\<lparr>sock_reads := rs\<rparr>, fr_buf := fr_buf f @ bs\<rparr>)
    | Inl e \<Rightarrow> fails quiet (sock_reads s)"
proof -
  obtain used where used: "sock_reads s = used @ r # rs" "\<not> fails quiet used"
    "\<not> snd (stream_of quiet used)" "conn_inv m (fst (stream_of quiet used)) (map snd h) f"
    using assms by (auto simp: conn_state_def)
  have s': "sock_reads s = (used @ [r]) @ rs" using used(1) by simp
  show ?thesis
  proof (cases "read_answer quiet r")
    case (Inl e)
    with used(1) show ?thesis by simp
  next
    case (Inr bs)
    let ?f = "f\<lparr>fr_conn := (fr_conn f)\<lparr>sock_reads := rs\<rparr>\<rparr>"
    have inv: "conn_inv m (fst (stream_of quiet used)) (map snd h) ?f" "\<not> fr_eof ?f"
      using used(4) assms(2) by simp_all
    show ?thesis
    proof (cases "bs = []")
      case True
      with Inr used conn_inv_end [OF inv(1)] assms(1) s' show ?thesis
        by (auto simp: conn_state_def stream_of_append intro!: exI [of _ "used @ [r]"])
    next
      case False
      with Inr used conn_inv_bytes [OF inv, of bs] assms(1,2) s' show ?thesis
        by (auto simp: conn_state_def stream_of_append intro!: exI [of _ "used @ [r]"])
    qed
  qed
qed

lemma decode_state:
  assumes st: "conn_state quiet m cfg s h f" and "\<not> clock_underflow cfg clk"
    and run: "framed_decode (decode False clk) d f = (d', f', r)"
  shows "(r = Ok None \<and> (if fr_eof f' then map snd h = socket_frames quiet m s else True) \<and>
      conn_state quiet m cfg s h f') \<or>
    (\<exists>x. r = Ok (Some x) \<and> poll_ok quiet m cfg s h f' (Ready (Some (Ok x))))"
proof -
  obtain used where used: "sock_reads s = used @ sock_reads (fr_conn f)" "\<not> fails quiet used"
    "fr_eof f = snd (stream_of quiet used)"
    and inv: "conn_inv m (fst (stream_of quiet used)) (map snd h) f"
    and id: "sock_id (fr_conn f) = sock_id s" "receive_state (fr_decoder f) = receiver_after cfg h"
    using st by (auto simp: conn_state_def)
  show ?thesis
  proof (cases rule: framed_decode_cases [OF inv, of "decode False clk" d])
    case (1 d1 c')
    then have "conn_state quiet m cfg s h f'"
      using used id run by (auto simp: conn_state_def)
    moreover have "fr_eof f' \<Longrightarrow> map snd h = socket_frames quiet m s"
      using conn_state_prefix(2) [OF st] 1 run by simp
    ultimately show ?thesis using 1 run by simp
  next
    case (2 b d1 d2 g x c')
    then have dec: "decode False clk d1 (receiver_after cfg h) b = (d2, g, x)" using id by simp
    note h = history_snoc [OF dec]
    obtain y where y: "into_received x = Ok (Some y)" "received_of x = Ok y"
      using decode_no_panic [OF _ dec] assms(2) into_received_of by (metis config_receiver_after)
    have "conn_state quiet m cfg s (h @ [(clk, b)]) f'"
      using used id run 2 h(1) by (auto simp: conn_state_def)
    then show ?thesis
      using h(2) y run 2 id by (auto simp: poll_ok_def item_ok_def conn_state_def)
  qed
qed

text \<open>One action decides the poll, or the poll goes on with the others.\<close>

lemma framed_poll_read:
  assumes st: "conn_state quiet m cfg s h f"
    and run: "framed_poll quiet (decode False) (Read # as) f d = (d', f', r)"
  shows "poll_ok quiet m cfg s h f' r \<or>
    (\<exists>f1. conn_state quiet m cfg s h f1 \<and> framed_poll quiet (decode False) as f1 d = (d', f', r))"
proof (cases "fr_eof f \<or> sock_reads (fr_conn f) = []")
  case True
  with st run show ?thesis by (auto split: if_splits)
next
  case False
  then obtain x rs where reads: "sock_reads (fr_conn f) = x # rs" by (cases "sock_reads (fr_conn f)") auto
  with False read_state [OF st _ reads] run conn_state_id [OF st] show ?thesis
    by (cases "read_answer quiet x") (auto simp: poll_ok_def Let_def split: if_splits)
qed

lemma framed_poll_decode:
  assumes st: "conn_state quiet m cfg s h f" and clk: "\<not> clock_underflow cfg clk"
    and run: "framed_poll quiet (decode False) (Decode clk # as) f d = (d', f', r)"
  shows "poll_ok quiet m cfg s h f' r \<or>
    (\<exists>f1 d1. conn_state quiet m cfg s h f1 \<and> framed_poll quiet (decode False) as f1 d1 = (d', f', r))"
proof -
  obtain d1 f1 x where step: "framed_decode (decode False clk) d f = (d1, f1, x)" by (metis prod_cases3)
  consider (dry) "x = Ok None" "fr_eof f1 \<longrightarrow> map snd h = socket_frames quiet m s" "conn_state quiet m cfg s h f1"
    | (item) y where "x = Ok (Some y)" "poll_ok quiet m cfg s h f1 (Ready (Some (Ok y)))"
    using decode_state [OF st clk step] by (auto split: if_splits)
  then show ?thesis
  proof cases
    case dry
    with run step show ?thesis by (auto simp: poll_ok_def dest: conn_state_id split: if_splits)
  next
    case item
    with run step show ?thesis by simp
  qed
qed

lemma framed_poll_ok:
  assumes "conn_state quiet m cfg s h f" and "\<forall>a \<in> set as. safe_action cfg a"
    and "framed_poll quiet (decode False) as f d = (d', f', r)"
  shows "poll_ok quiet m cfg s h f' r"
  using assms
proof (induction as arbitrary: f d)
  case Nil
  then show ?case by (auto simp: poll_ok_def conn_state_def)
next
  case (Cons a as)
  have "poll_ok quiet m cfg s h f' r \<or>
    (\<exists>f1 d1. conn_state quiet m cfg s h f1 \<and> framed_poll quiet (decode False) as f1 d1 = (d', f', r))"
  proof (cases a)
    case Read
    from framed_poll_read [OF Cons.prems(1)] Cons.prems(3) show ?thesis unfolding Read by blast
  next
    case (Decode clk)
    then have "\<not> clock_underflow cfg clk" using Cons.prems(2) by (simp add: safe_action_def)
    from framed_poll_decode [OF Cons.prems(1) this] Cons.prems(3) show ?thesis unfolding Decode by blast
  qed
  with Cons.IH Cons.prems(2) show ?case by auto
qed

lemma conn_poll_ok:
  assumes "conn_state quiet m cfg s h (ts_stream t)" and "\<forall>a \<in> set as. safe_action cfg a"
    and "conn_poll quiet (decode False) as elapsed t d = (d', t', r)"
  shows "poll_ok quiet m cfg s h (ts_stream t') r \<or>
    elapsed \<and> r = Ready None \<and> sock_id (fr_conn (ts_stream t')) = sock_id s"
proof -
  obtain d1 f x where poll: "framed_poll quiet (decode False) as (ts_stream t) d = (d1, f, x)"
    by (metis prod_cases3)
  note ok = framed_poll_ok [OF assms(1,2) poll]
  then have "sock_id (fr_conn f) = sock_id s" by (simp add: poll_ok_def)
  with ok assms(3) poll show ?thesis
    by (cases x) (auto simp: conn_poll_def split: if_splits)
qed

end
