(* ===== verification/Tcp_Run.thy ===== *)
theory Tcp_Run
  imports Tcp_History
begin

text \<open>
  The TCP side of the program as one machine: the listener offers connections, \<open>Listen\<close>
  accepts them into its pool and polls them in the order the runtime chooses, what a poll
  gives is an event of the server loop, and a complete message goes through the processor to
  standard output.
\<close>

section \<open>The machine\<close>

text \<open>
  One turn per poll of the stream: what the listener has answered since, and the answers of
  the runtime. Answers of the listener that were not asked for wait for the next turn. The
  trace names for every item the connection it came from, which is the one \<open>Listen\<close> has just
  put back.
\<close>

type_synonym pool_answer = "(nat \<times> clock action list \<times> bool) list"
type_synonym 'addr turn = "(socket \<times> 'addr) result poll list \<times> pool_answer list"

abbreviation conn_id :: "'r conn \<Rightarrow> nat" where
  "conn_id t \<equiv> sock_id (fr_conn (ts_stream t))"

type_synonym backlog = "socket result option poll list"

fun tcp_run ::
  "(socket, 'r conn) accept_fn \<Rightarrow> (pool_answer, 'r conn, received) pool_fn \<Rightarrow> 'w process_fn \<Rightarrow>
   'addr turn list \<Rightarrow> backlog \<Rightarrow> 'r conn listen \<Rightarrow> diag \<Rightarrow> 'w \<Rightarrow>
   backlog \<times> 'r conn listen \<times> diag \<times> 'w \<times> control \<times> (nat \<times> received) list" where
  "tcp_run acc pool process [] bl l d w = (bl, l, d, w, Continue, [])"
| "tcp_run acc pool process ((new, es) # turns) bl l d w =
     (case listen_poll acc pool (bl @ map tcp_incoming_poll new) es l d of
        (bl, l, d, Pending) \<Rightarrow> tcp_run acc pool process turns bl l d w
      | (bl, l, d, Ready x) \<Rightarrow>
          (let seen = (case x of Some (Ok item) \<Rightarrow> [(conn_id (last (connections l)), item)] | _ \<Rightarrow> [])
           in case server_step process (Incoming x) d w of
                (d, w, Continue) \<Rightarrow>
                  (case tcp_run acc pool process turns bl l d w of
                     (bl, l, d, w, ctl, trace) \<Rightarrow> (bl, l, d, w, ctl, seen @ trace))
              | (d, w, ctl) \<Rightarrow> (bl, l, d, w, ctl, seen)))"

section \<open>The pool and the histories\<close>

text \<open>
  \<open>offered\<close> are the sockets of the whole run, \<open>ws\<close> those that still wait, \<open>cs\<close> the connections
  in the pool. Every history is a part of what its socket sends, from the start, and all of
  it once the connection has gone, unless the run is not calm: a timeout, a failed read or a
  failed handshake.
  Nothing else has a history.
\<close>

definition pool_inv ::
  "bool \<Rightarrow> usize \<Rightarrow> receive_config \<Rightarrow> socket set \<Rightarrow> bool \<Rightarrow> socket list \<Rightarrow> gelf conn list \<Rightarrow>
   (nat \<Rightarrow> history) \<Rightarrow> bool" where
  "pool_inv quiet m cfg offered calm ws cs hist \<longleftrightarrow>
     distinct (map sock_id ws @ map conn_id cs) \<and> set ws \<subseteq> offered \<and>
     (\<forall>s \<in> set ws. hist (sock_id s) = []) \<and> (\<forall>k. k \<notin> sock_id ` offered \<longrightarrow> hist k = []) \<and>
     (\<forall>t \<in> set cs. \<exists>s \<in> offered. conn_state quiet m cfg s (hist (conn_id t)) (ts_stream t)) \<and>
     (\<forall>s \<in> offered. prefix (map snd (hist (sock_id s))) (socket_frames quiet m s) \<and>
        (calm \<and> sock_id s \<notin> sock_id ` set ws \<union> conn_id ` set cs \<longrightarrow>
         map snd (hist (sock_id s)) = socket_frames quiet m s))"

text \<open>What a calm run excludes.\<close>

definition calm_answer :: "pool_answer \<Rightarrow> bool" where
  "calm_answer ps \<longleftrightarrow> (\<forall>(i, as, elapsed) \<in> set ps. \<not> elapsed)"

definition safe_answer :: "receive_config \<Rightarrow> pool_answer \<Rightarrow> bool" where
  "safe_answer cfg ps \<longleftrightarrow> (\<forall>(i, as, elapsed) \<in> set ps. \<forall>a \<in> set as. safe_action cfg a)"

lemma pool_inv_conn:
  assumes "pool_inv quiet m cfg offered calm ws (xs @ t # ys) hist"
  obtains s where "s \<in> offered" "sock_id s = conn_id t"
    "conn_state quiet m cfg s (hist (conn_id t)) (ts_stream t)"
proof -
  from assms obtain s where "s \<in> offered" "conn_state quiet m cfg s (hist (conn_id t)) (ts_stream t)"
    by (auto simp: pool_inv_def)
  with that conn_state_id show thesis by metis
qed

lemma pool_invD:
  assumes "pool_inv quiet m cfg offered calm ws cs hist"
  shows "distinct (map sock_id ws @ map conn_id cs)" "set ws \<subseteq> offered"
    and "s \<in> set ws \<Longrightarrow> hist (sock_id s) = []"
    and "t \<in> set cs \<Longrightarrow> \<exists>s \<in> offered. conn_state quiet m cfg s (hist (conn_id t)) (ts_stream t)"
    and "s \<in> offered \<Longrightarrow> prefix (map snd (hist (sock_id s))) (socket_frames quiet m s)"
    and "s \<in> offered \<Longrightarrow> calm \<Longrightarrow> sock_id s \<notin> sock_id ` set ws \<Longrightarrow> sock_id s \<notin> conn_id ` set cs \<Longrightarrow>
      map snd (hist (sock_id s)) = socket_frames quiet m s"
    and "k \<notin> sock_id ` offered \<Longrightarrow> hist k = []"
  using assms unfolding pool_inv_def by blast+

text \<open>A connection makes progress, with or without an item, and may change its place.\<close>

lemma pool_inv_progress:
  assumes inv: "pool_inv quiet m cfg offered calm ws (xs @ t # ys) hist" and inj: "inj_on sock_id offered"
    and s: "s \<in> offered" "sock_id s = conn_id t" and st: "conn_state quiet m cfg s h (ts_stream t')"
    and cs': "set cs' = insert t' (set xs \<union> set ys)" "distinct (map sock_id ws @ map conn_id cs')"
  shows "pool_inv quiet m cfg offered calm ws cs' (hist(conn_id t := h))"
  unfolding pool_inv_def
proof (intro conjI ballI allI impI)
  note D = pool_invD [OF inv]
  have id: "conn_id t' = conn_id t" using conn_state_id [OF st] s(2) by simp
  have others: "conn_id u \<noteq> conn_id t" if "u \<in> set xs \<union> set ys" for u
    using D(1) that by (auto simp: image_iff)
  show "(hist(conn_id t := h)) (sock_id s') = []" if "s' \<in> set ws" for s'
    using D(1) D(3) [OF that] that by (auto simp: image_iff)
  show "(hist(conn_id t := h)) k = []" if "k \<notin> sock_id ` offered" for k
    using D(7) [OF that] that s by (metis fun_upd_other imageI)
  show "\<exists>s \<in> offered. conn_state quiet m cfg s ((hist(conn_id t := h)) (conn_id u)) (ts_stream u)"
    if "u \<in> set cs'" for u
    using that cs'(1) s st id others [of u] D(4) [of u] by (auto simp: image_iff)
  fix s'
  assume s': "s' \<in> offered"
  have same: "s' = s" if "sock_id s' = conn_id t"
    using inj_onD [OF inj _ s' s(1)] that s(2) by simp
  show "prefix (map snd ((hist(conn_id t := h)) (sock_id s'))) (socket_frames quiet m s')"
    using conn_state_prefix(1) [OF st] same D(5) [OF s'] by (cases "sock_id s' = conn_id t") auto
  assume calm: "calm \<and> sock_id s' \<notin> sock_id ` set ws \<union> conn_id ` set cs'"
  then have "sock_id s' \<noteq> conn_id t" using cs'(1) id by (metis Un_iff image_eqI insertI1)
  then show "map snd ((hist(conn_id t := h)) (sock_id s')) = socket_frames quiet m s'"
    using D(6) [OF s'] calm cs'(1) by auto
qed (use pool_invD [OF inv] cs' in auto)

text \<open>A connection leaves the pool.\<close>

lemma pool_inv_leave:
  assumes inv: "pool_inv quiet m cfg offered calm ws (xs @ t # ys) hist" and inj: "inj_on sock_id offered"
    and s: "s \<in> offered" "sock_id s = conn_id t"
    and all: "calm \<Longrightarrow> map snd (hist (conn_id t)) = socket_frames quiet m s"
  shows "pool_inv quiet m cfg offered calm ws (xs @ ys) hist"
  unfolding pool_inv_def
proof (intro conjI ballI impI)
  note D = pool_invD [OF inv]
  fix s'
  assume s': "s' \<in> offered" and calm: "calm \<and> sock_id s' \<notin> sock_id ` set ws \<union> conn_id ` set (xs @ ys)"
  have same: "s' = s" if "sock_id s' = conn_id t"
    using inj_onD [OF inj _ s' s(1)] that s(2) by simp
  show "map snd (hist (sock_id s')) = socket_frames quiet m s'"
  proof (cases "sock_id s' = conn_id t")
    case True
    with same all calm s(2) show ?thesis by simp
  next
    case False
    with D(6) [OF s'] calm show ?thesis by auto
  qed
qed (use pool_invD [OF inv] in auto)

text \<open>A socket that waits is accepted, or is refused.\<close>

lemma pool_inv_accept:
  assumes inv: "pool_inv quiet m cfg offered calm (s # ws) cs hist"
    and t: "ts_stream t = framed_new s (tcp_decode_new m (gelf_new cfg))"
  shows "pool_inv quiet m cfg offered calm ws (cs @ [t]) hist"
  unfolding pool_inv_def
proof (intro conjI ballI impI)
  note D = pool_invD [OF inv]
  have id: "conn_id t = sock_id s" using t by (simp add: framed_new_def)
  have s: "s \<in> offered" "hist (sock_id s) = []" using D(2) D(3) [of s] by auto
  show "distinct (map sock_id ws @ map conn_id (cs @ [t]))" using D(1) id by auto
  show "\<exists>s \<in> offered. conn_state quiet m cfg s (hist (conn_id u)) (ts_stream u)" if "u \<in> set (cs @ [t])" for u
  proof (cases "u = t")
    case True
    with s id t conn_state_new [of quiet m cfg s] show ?thesis by auto
  next
    case False
    with that D(4) [of u] show ?thesis by auto
  qed
  show "map snd (hist (sock_id s')) = socket_frames quiet m s'"
    if "s' \<in> offered" "calm \<and> sock_id s' \<notin> sock_id ` set ws \<union> conn_id ` set (cs @ [t])" for s'
    using D(6) [OF that(1)] that(2) id by auto
qed (use pool_invD [OF inv] in auto)

lemma pool_inv_refuse:
  assumes inv: "pool_inv quiet m cfg offered False (s # ws) cs hist"
  shows "pool_inv quiet m cfg offered False ws cs hist"
  unfolding pool_inv_def
  by (intro conjI ballI impI) (use pool_invD [OF inv] in auto)

section \<open>Polling the pool\<close>

text \<open>The answers of the pool, with what they mean for the histories.\<close>

definition pool_ans_ok ::
  "bool \<Rightarrow> usize \<Rightarrow> receive_config \<Rightarrow> socket set \<Rightarrow> bool \<Rightarrow> socket list \<Rightarrow> (nat \<Rightarrow> history) \<Rightarrow>
   (gelf conn, received) pool_poll \<Rightarrow> bool" where
  "pool_ans_ok quiet m cfg offered calm ws hist r \<longleftrightarrow>
     (case r of
        Pool_idle rest \<Rightarrow> pool_inv quiet m cfg offered calm ws rest hist
      | Conn_closed rest \<Rightarrow> pool_inv quiet m cfg offered calm ws rest hist
      | Conn_item (Err e) t rest \<Rightarrow> pool_inv quiet m cfg offered calm ws rest hist
      | Conn_item (Panic p) t rest \<Rightarrow> False
      | Conn_item (Ok x) t rest \<Rightarrow>
          (\<exists>i. pool_inv quiet m cfg offered calm ws (rest @ [t])
             (hist(conn_id t := hist (conn_id t) @ [i])) \<and> item_ok cfg (hist (conn_id t)) i x))"

definition calm_reads :: "bool \<Rightarrow> socket set \<Rightarrow> bool" where
  "calm_reads quiet offered \<longleftrightarrow> (\<forall>s \<in> offered. \<not> fails quiet (sock_reads s))"

lemma pool_conn_ready:
  assumes inv: "pool_inv quiet m cfg offered calm ws (xs @ t # ys) hist" and inj: "inj_on sock_id offered"
    and calm: "calm \<Longrightarrow> \<not> elapsed \<and> calm_reads quiet offered" and safe: "\<forall>a \<in> set as. safe_action cfg a"
    and poll: "conn_poll quiet (decode False) as elapsed t d = (d', t', r)"
  shows "case r of
      Pending \<Rightarrow> pool_inv quiet m cfg offered calm ws (xs @ t' # ys) hist
    | Ready None \<Rightarrow> pool_ans_ok quiet m cfg offered calm ws hist (Conn_closed (xs @ ys))
    | Ready (Some x) \<Rightarrow> pool_ans_ok quiet m cfg offered calm ws hist (Conn_item x t' (xs @ ys))"
proof -
  obtain s where s: "s \<in> offered" "sock_id s = conn_id t"
    and st: "conn_state quiet m cfg s (hist (conn_id t)) (ts_stream t)"
    by (rule pool_inv_conn [OF inv])
  note leave = pool_inv_leave [OF inv inj s] and progress = pool_inv_progress [OF inv inj s]
  note dist = pool_invD(1) [OF inv]
  from conn_poll_ok [OF st safe poll] show ?thesis
  proof (elim disjE)
    assume "elapsed \<and> r = Ready None \<and> conn_id t' = sock_id s"
    with calm leave show ?thesis by (auto simp: pool_ans_ok_def)
  next
    assume ok: "poll_ok quiet m cfg s (hist (conn_id t)) (ts_stream t') r"
    then have id: "conn_id t' = conn_id t" using s(2) by (simp add: poll_ok_def)
    have dist': "distinct (map sock_id ws @ map conn_id (xs @ t' # ys))"
      "distinct (map sock_id ws @ map conn_id ((xs @ ys) @ [t']))"
      using dist id by auto
    consider (pending) "r = Pending" | (closed) "r = Ready None" | (item) x where "r = Ready (Some (Ok x))"
      | (failed) e where "r = Ready (Some (Err e))"
      using ok by (cases r) (auto simp: poll_ok_def split: poll.splits option.splits outcome.splits)
    then show ?thesis
    proof cases
      case pending
      then have "conn_state quiet m cfg s (hist (conn_id t)) (ts_stream t')"
        using ok by (simp add: poll_ok_def)
      from progress [OF this _ dist'(1)] pending show ?thesis by simp
    next
      case closed
      with ok leave show ?thesis by (auto simp: poll_ok_def pool_ans_ok_def)
    next
      case (item x)
      then obtain i where i: "conn_state quiet m cfg s (hist (conn_id t) @ [i]) (ts_stream t')"
        "item_ok cfg (hist (conn_id t)) i x"
        using ok by (auto simp: poll_ok_def)
      from progress [OF i(1) _ dist'(2)] i(2) item id show ?thesis
        by (cases i) (auto simp: pool_ans_ok_def)
    next
      case (failed e)
      with ok s calm leave show ?thesis by (auto simp: poll_ok_def pool_ans_ok_def calm_reads_def)
    qed
  qed
qed

lemma conn_pool_ok:
  assumes "pool_inv quiet m cfg offered calm ws cs hist" and inj: "inj_on sock_id offered"
    and "calm \<Longrightarrow> calm_answer ps \<and> calm_reads quiet offered" and "safe_answer cfg ps"
    and "conn_pool quiet (decode False) ps cs d = (d', r)"
  shows "pool_ans_ok quiet m cfg offered calm ws hist r"
  using assms
proof (induction ps arbitrary: cs d)
  case Nil
  then show ?case by (auto simp: pool_ans_ok_def)
next
  case (Cons p ps)
  obtain i as elapsed where p: "p = (i, as, elapsed)" by (metis prod_cases3)
  have IH: "pool_ans_ok quiet m cfg offered calm ws hist r"
    if "pool_inv quiet m cfg offered calm ws cs' hist"
      "conn_pool quiet (decode False) ps cs' d1 = (d', r)" for cs' d1
    using Cons.IH [OF that(1) inj _ _ that(2)] Cons.prems(3,4) by (simp add: calm_answer_def safe_answer_def)
  show ?case
  proof (cases "i < length cs")
    case False
    with Cons.prems(1,5) p IH show ?thesis by simp
  next
    case True
    obtain d1 t x where poll: "conn_poll quiet (decode False) as elapsed (cs ! i) d = (d1, t, x)"
      by (metis prod_cases3)
    have cs: "cs = take i cs @ cs ! i # drop (Suc i) cs"
      using True by (rule id_take_nth_drop)
    have upd: "cs[i := t] = take i cs @ t # drop (Suc i) cs"
      using True by (rule upd_conv_take_nth_drop)
    have "case x of Pending \<Rightarrow> pool_inv quiet m cfg offered calm ws (cs[i := t]) hist
      | Ready None \<Rightarrow> pool_ans_ok quiet m cfg offered calm ws hist (Conn_closed (remove_nth i cs))
      | Ready (Some y) \<Rightarrow> pool_ans_ok quiet m cfg offered calm ws hist (Conn_item y t (remove_nth i cs))"
      unfolding remove_nth_def upd
      by (rule pool_conn_ready [OF _ inj _ _ poll])
        (use Cons.prems(1,3,4) cs p in \<open>auto simp: calm_answer_def safe_answer_def\<close>)
    with Cons.prems(5) True poll p IH show ?thesis
      by (auto split: poll.splits option.splits)
  qed
qed

section \<open>Accepting\<close>

text \<open>The sockets among the answers of the listener.\<close>

definition sockets :: "backlog \<Rightarrow> socket list" where
  "sockets bl = concat (map (\<lambda>a. case a of Ready (Some (Ok s)) \<Rightarrow> [s] | _ \<Rightarrow> []) bl)"

lemma sockets_simps [simp]:
  "sockets [] = []" "sockets (Pending # bl) = sockets bl" "sockets (Ready None # bl) = sockets bl"
  "sockets (Ready (Some (Ok s)) # bl) = s # sockets bl" "sockets (Ready (Some (Err e)) # bl) = sockets bl"
  "sockets (Ready (Some (Panic p)) # bl) = sockets bl" "sockets (bl @ bl') = sockets bl @ sockets bl'"
  by (simp_all add: sockets_def)

text \<open>A handshake gives the same socket, whose reads are of the decrypted bytes, or fails.\<close>

definition handshakes :: "('t \<Rightarrow> socket \<Rightarrow> socket result) \<Rightarrow> bool" where
  "handshakes tls_accept \<longleftrightarrow> (\<forall>tls s s'. tls_accept tls s = Ok s' \<longrightarrow> s' = s)"

definition calm_accept :: "('t \<Rightarrow> socket \<Rightarrow> socket result) \<Rightarrow> 't tcp_stream \<Rightarrow> socket set \<Rightarrow> bool" where
  "calm_accept tls_accept st offered \<longleftrightarrow>
     (\<forall>tls. st_tls st = Some tls \<longrightarrow> (\<forall>s \<in> offered. tls_accept tls s = Ok s))"

lemma accept_Some:
  assumes "handshakes tls_accept" and "tcp_accept tls_accept st (gelf_new cfg) conn d = (d', Some t)"
  obtains s where "conn = Ok s"
    "ts_stream t = framed_new s (tcp_decode_new (st_max_size_bytes st) (gelf_new cfg))"
proof -
  note same = assms(1) [unfolded handshakes_def, rule_format]
  from assms(2) that show thesis
    by (auto simp: tcp_accept_def accept_def accept_tls_def accept_protocol_def timeout_new_def
        dest!: same split: option.splits outcome.splits)
qed

lemma accept_None:
  assumes "calm_accept tls_accept st offered" and "s \<in> offered"
  shows "tcp_accept tls_accept st receive (Ok s) d \<noteq> (d', None)"
  using assms
  by (auto simp: tcp_accept_def accept_def accept_tls_def accept_protocol_def timeout_new_def calm_accept_def
      split: option.splits outcome.splits)

lemma accept_poll_inv:
  assumes "pool_inv quiet (st_max_size_bytes st) cfg offered calm (sockets as @ fut) cs hist"
    and tls: "handshakes tls_accept" and calm: "calm \<Longrightarrow> calm_accept tls_accept st offered"
    and "accept_poll (tcp_accept tls_accept st (gelf_new cfg)) as d = (as', d', r)"
  shows "pool_inv quiet (st_max_size_bytes st) cfg offered calm (sockets as' @ fut)
    (case r of Ready (Some t) \<Rightarrow> cs @ [t] | _ \<Rightarrow> cs) hist"
  using assms(1,4)
proof (induction as arbitrary: d)
  case Nil
  then show ?case by simp
next
  case (Cons a as)
  show ?case
  proof (cases "\<exists>conn. a = Ready (Some conn)")
    case False
    then have "a = Pending \<or> a = Ready None" by (metis option.exhaust poll.exhaust)
    with Cons.prems show ?thesis by auto
  next
    case True
    then obtain conn where a: "a = Ready (Some conn)" by blast
    obtain d1 x where acc: "tcp_accept tls_accept st (gelf_new cfg) conn d = (d1, x)" by (metis surj_pair)
    show ?thesis
    proof (cases x)
      case (Some t)
      obtain s where s: "conn = Ok s"
        "ts_stream t = framed_new s (tcp_decode_new (st_max_size_bytes st) (gelf_new cfg))"
        using accept_Some [OF tls] acc Some by metis
      with Cons.prems acc Some a pool_inv_accept show ?thesis by auto
    next
      case None
      have "pool_inv quiet (st_max_size_bytes st) cfg offered calm (sockets as @ fut) cs hist"
      proof (cases conn)
        case (Ok s)
        then have "s \<in> offered" using pool_invD(2) [OF Cons.prems(1)] a by simp
        then have "\<not> calm" using accept_None calm acc Ok None by metis
        with Cons.prems(1) a Ok pool_inv_refuse [of quiet _ cfg offered s] show ?thesis by simp
      qed (use Cons.prems(1) a in auto)
      with Cons.IH [of d1] Cons.prems(2) acc None a show ?thesis by simp
    qed
  qed
qed

lemma fill_conns_inv:
  assumes "pool_inv quiet (st_max_size_bytes st) cfg offered calm (sockets as @ fut) (connections l) hist"
    and tls: "handshakes tls_accept" and calm: "calm \<Longrightarrow> calm_accept tls_accept st offered"
    and "fill_conns (tcp_accept tls_accept st (gelf_new cfg)) as l d = (as', l', d')"
  shows "pool_inv quiet (st_max_size_bytes st) cfg offered calm (sockets as' @ fut) (connections l') hist"
  by (rule fill_conns_invariant [where P = "\<lambda>as l d.
        pool_inv quiet (st_max_size_bytes st) cfg offered calm (sockets as @ fut) (connections l) hist",
        OF assms(1) _ _ _ assms(4)])
    (use accept_poll_inv [OF _ tls calm] in fastforce)+

text \<open>
  A poll of \<open>Listen\<close>: an item extends the history of the connection that was put back by one
  frame; the histories of all others, and all of them if there is no item, stay.
\<close>

definition listen_ans_ok ::
  "bool \<Rightarrow> usize \<Rightarrow> receive_config \<Rightarrow> socket set \<Rightarrow> bool \<Rightarrow> socket list \<Rightarrow> (nat \<Rightarrow> history) \<Rightarrow>
   gelf conn list \<Rightarrow> received result option poll \<Rightarrow> bool" where
  "listen_ans_ok quiet m cfg offered calm ws hist cs r \<longleftrightarrow>
     (case r of
        Ready (Some (Ok x)) \<Rightarrow>
          (\<exists>k i. k = conn_id (last cs) \<and> item_ok cfg (hist k) i x \<and>
             pool_inv quiet m cfg offered calm ws cs (hist(k := hist k @ [i])))
      | Ready (Some _) \<Rightarrow> False
      | _ \<Rightarrow> pool_inv quiet m cfg offered calm ws cs hist)"

lemma listen_ans_idle:
  "pool_inv quiet m cfg offered calm ws cs hist \<Longrightarrow> listen_ans_ok quiet m cfg offered calm ws hist cs (idle_result l)"
  by (simp add: listen_ans_ok_def idle_result_def)

text \<open>The answer of the set of connections decides the poll, or the poll goes on.\<close>

lemma listen_poll_step:
  assumes "pool_inv quiet (st_max_size_bytes st) cfg offered calm (sockets as @ fut) (connections l) hist"
    and inj: "inj_on sock_id offered" and tls: "handshakes tls_accept"
    and calm: "calm \<longrightarrow> calm_accept tls_accept st offered \<and> calm_reads quiet offered"
    and e: "safe_answer cfg e" "calm \<longrightarrow> calm_answer e"
    and run: "listen_poll (tcp_accept tls_accept st (gelf_new cfg)) (conn_pool quiet (decode False)) as (e # es) l d =
      (as', l', d', r)"
  shows "listen_ans_ok quiet (st_max_size_bytes st) cfg offered calm (sockets as' @ fut) hist (connections l') r \<or>
    (\<exists>as1 l1 d1. pool_inv quiet (st_max_size_bytes st) cfg offered calm (sockets as1 @ fut) (connections l1) hist \<and>
       listen_poll (tcp_accept tls_accept st (gelf_new cfg)) (conn_pool quiet (decode False)) as1 es l1 d1 =
         (as', l', d', r))"
proof -
  obtain as1 l1 d1 where fill: "fill_conns (tcp_accept tls_accept st (gelf_new cfg)) as l d = (as1, l1, d1)"
    by (metis prod_cases3)
  have inv: "pool_inv quiet (st_max_size_bytes st) cfg offered calm (sockets as1 @ fut) (connections l1) hist"
    using fill_conns_inv [OF assms(1) tls _ fill] calm by simp
  obtain d2 ans where pool: "conn_pool quiet (decode False) e (connections l1) d1 = (d2, ans)" by (metis surj_pair)
  have ans: "pool_ans_ok quiet (st_max_size_bytes st) cfg offered calm (sockets as1 @ fut) hist ans"
    using conn_pool_ok [OF inv inj _ _ pool] calm e by simp
  show ?thesis
  proof (cases ans)
    case (Conn_item x t rest)
    show ?thesis
    proof (cases x)
      case (Ok y)
      have "as' = as1" "connections l' = rest @ [t]" "r = Ready (Some (Ok y))"
        using run fill pool Conn_item Ok by auto
      with ans Conn_item Ok show ?thesis
        unfolding listen_ans_ok_def pool_ans_ok_def by (simp del: split_paired_Ex) blast
    qed (use ans Conn_item run fill pool in \<open>auto simp: pool_ans_ok_def\<close>)
  qed (use run fill pool ans listen_ans_idle in \<open>auto simp: pool_ans_ok_def\<close>)
qed

lemma listen_poll_inv:
  assumes "pool_inv quiet (st_max_size_bytes st) cfg offered calm (sockets as @ fut) (connections l) hist"
    and inj: "inj_on sock_id offered" and tls: "handshakes tls_accept"
    and calm: "calm \<Longrightarrow> calm_accept tls_accept st offered \<and> calm_reads quiet offered"
    and "\<forall>e \<in> set es. safe_answer cfg e \<and> (calm \<longrightarrow> calm_answer e)"
    and "listen_poll (tcp_accept tls_accept st (gelf_new cfg)) (conn_pool quiet (decode False)) as es l d =
      (as', l', d', r)"
  shows "listen_ans_ok quiet (st_max_size_bytes st) cfg offered calm (sockets as' @ fut) hist (connections l') r"
  using assms(1,5,6)
proof (induction es arbitrary: as l d)
  case Nil
  obtain as1 l1 d1 where fill: "fill_conns (tcp_accept tls_accept st (gelf_new cfg)) as l d = (as1, l1, d1)"
    by (metis prod_cases3)
  from listen_ans_idle fill_conns_inv [OF Nil.prems(1) tls _ fill] calm Nil.prems(3) fill show ?case by auto
next
  case (Cons e es)
  have "calm \<longrightarrow> calm_accept tls_accept st offered \<and> calm_reads quiet offered"
    "safe_answer cfg e" "calm \<longrightarrow> calm_answer e"
    using calm Cons.prems(2) by auto
  note step = listen_poll_step [OF Cons.prems(1) inj tls this Cons.prems(3)]
  have "\<forall>e \<in> set es. safe_answer cfg e \<and> (calm \<longrightarrow> calm_answer e)" using Cons.prems(2) by simp
  note IH = Cons.IH [OF _ this]
  from step show ?case by (elim disjE exE conjE) (assumption, erule (1) IH)
qed

section \<open>The run\<close>

definition turn_sockets :: "'addr turn list \<Rightarrow> socket list" where
  "turn_sockets turns = concat (map (\<lambda>(new, es). sockets (map tcp_incoming_poll new)) turns)"

text \<open>What a trace says: the items of a connection, and the complete messages of all.\<close>

definition items_of :: "nat \<Rightarrow> (nat \<times> received) list \<Rightarrow> received list" where
  "items_of k trace = map snd (filter (\<lambda>(j, x). j = k) trace)"

definition trace_messages :: "(nat \<times> received) list \<Rightarrow> message list" where
  "trace_messages trace = concat (map (\<lambda>(k, x). complete_of (Incoming (Some (Ok x)))) trace)"

lemma trace_simps [simp]:
  "items_of k [] = []" "items_of k ((j, x) # trace) = (if j = k then x # items_of k trace else items_of k trace)"
  "trace_messages [] = []"
  "trace_messages ((j, x) # trace) = complete_of (Incoming (Some (Ok x))) @ trace_messages trace"
  by (simp_all add: items_of_def trace_messages_def)

lemma turn_sockets_simps [simp]:
  "turn_sockets [] = []"
  "turn_sockets ((new, es) # turns) = sockets (map tcp_incoming_poll new) @ turn_sockets turns"
  by (simp_all add: turn_sockets_def)

text \<open>The items of a trace are those by which the histories have grown.\<close>

definition traced ::
  "receive_config \<Rightarrow> (nat \<Rightarrow> history) \<Rightarrow> (nat \<Rightarrow> history) \<Rightarrow> (nat \<times> received) list \<Rightarrow> bool" where
  "traced cfg hist hist' trace \<longleftrightarrow>
     (\<forall>k. map received_of (outcomes cfg (hist' k)) =
        map received_of (outcomes cfg (hist k)) @ map Ok (items_of k trace))"

lemma traced_Cons:
  assumes "item_ok cfg (hist k) i x" and "traced cfg (hist(k := hist k @ [i])) hist' trace"
  shows "traced cfg hist hist' ((k, x) # trace)"
  using assms by (auto simp: traced_def item_ok_def)

lemma endless_append: "endless (as @ bs) \<longleftrightarrow> endless as \<and> endless bs"
  by (auto simp: endless_def)

text \<open>The stream of connections does not end.\<close>

lemma listen_poll_open:
  assumes "listen_poll (tcp_accept tls_accept st receive) pool (bl @ map tcp_incoming_poll new) es l d = (bl', l', d', r)"
    and "endless bl" and "\<not> accept_done l"
  shows "endless bl'" and "\<not> accept_done l'" and "r \<noteq> Ready None" and "max_connections l' = max_connections l"
    and "r \<noteq> Ready (Some (Err e))"
proof -
  have "endless (bl @ map tcp_incoming_poll new)"
    using assms(2) endless_tcp_incoming by (simp add: endless_append)
  with stream_acceptor.listen_poll_frame [OF assms(1)] assms(3)
  show "endless bl'" "\<not> accept_done l'" "r \<noteq> Ready None" "max_connections l' = max_connections l"
    "r \<noteq> Ready (Some (Err e))"
    by (auto simp: endless_def)
qed

text \<open>
  What a run gives: how it ends, its lines, and the histories of the connections by its end.
  After a crash there may be sockets left that were never offered.
\<close>

definition tcp_result ::
  "(message \<Rightarrow> fate) \<Rightarrow> bool \<Rightarrow> usize \<Rightarrow> receive_config \<Rightarrow> socket set \<Rightarrow> bool \<Rightarrow> (nat \<Rightarrow> history) \<Rightarrow> string list \<Rightarrow>
   backlog \<times> gelf conn listen \<times> diag \<times> string list \<times> control \<times> (nat \<times> received) list \<Rightarrow> bool" where
  "tcp_result f quiet m cfg offered calm hist out = (\<lambda>(bl', l', d', out', ctl, trace).
     run_ends (map f (trace_messages trace)) ctl \<and>
     out' = out @ concat (map (\<lambda>m. fate_lines (f m)) (trace_messages trace)) \<and>
     (\<exists>hist' ws. traced cfg hist hist' trace \<and> (ctl = Continue \<longrightarrow> ws = []) \<and>
        pool_inv quiet m cfg offered calm (sockets bl' @ ws) (connections l') hist'))"

lemma tcp_result_crash:
  assumes "item_ok cfg (hist k) i x" and "Crashed \<in> set (map f (complete_of (Incoming (Some (Ok x)))))"
    and "pool_inv quiet m cfg offered calm (sockets bl' @ ws) (connections l') (hist(k := hist k @ [i]))"
  shows "tcp_result f quiet m cfg offered calm hist out
    (bl', l', d', out @ concat (map (\<lambda>m. fate_lines (f m)) (complete_of (Incoming (Some (Ok x))))), Unwind q, [(k, x)])"
proof -
  have "traced cfg hist (hist(k := hist k @ [i])) [(k, x)]"
    by (rule traced_Cons [of cfg hist k i x, OF assms(1)]) (simp add: traced_def)
  with assms(2,3) show ?thesis by (auto simp: tcp_result_def run_ends_def)
qed

lemma tcp_result_item:
  assumes "item_ok cfg (hist k) i x" and "Crashed \<notin> set (map f (complete_of (Incoming (Some (Ok x)))))"
    and "tcp_result f quiet m cfg offered calm (hist(k := hist k @ [i]))
      (out @ concat (map (\<lambda>m. fate_lines (f m)) (complete_of (Incoming (Some (Ok x))))))
      (bl', l', d', out', ctl, trace)"
  shows "tcp_result f quiet m cfg offered calm hist out (bl', l', d', out', ctl, (k, x) # trace)"
proof -
  obtain hist' ws where rest: "run_ends (map f (trace_messages trace)) ctl"
    "out' = out @ concat (map (\<lambda>m. fate_lines (f m)) (complete_of (Incoming (Some (Ok x))))) @
      concat (map (\<lambda>m. fate_lines (f m)) (trace_messages trace))"
    and hist': "traced cfg (hist(k := hist k @ [i])) hist' trace" "ctl = Continue \<longrightarrow> ws = []"
    "pool_inv quiet m cfg offered calm (sockets bl' @ ws) (connections l') hist'"
    using assms(3) by (auto simp: tcp_result_def)
  have "run_ends (map f (trace_messages ((k, x) # trace))) ctl"
    "out' = out @ concat (map (\<lambda>m. fate_lines (f m)) (trace_messages ((k, x) # trace)))"
    using rest assms(2) by (simp_all add: run_ends_def)
  with traced_Cons [of cfg hist k i x, OF assms(1) hist'(1)] hist'(2,3) show ?thesis
    unfolding tcp_result_def by blast
qed

context printer
begin

lemma tcp_run_histories:
  assumes "pool_inv quiet (st_max_size_bytes st) cfg offered calm (sockets bl @ turn_sockets turns)
      (connections l) hist"
    and inj: "inj_on sock_id offered" and tls: "handshakes tls_accept"
    and calm: "calm \<Longrightarrow> calm_accept tls_accept st offered \<and> calm_reads quiet offered"
    and "\<forall>(new, es) \<in> set turns. \<forall>e \<in> set es. safe_answer cfg e \<and> (calm \<longrightarrow> calm_answer e)"
    and "endless bl" and "\<not> accept_done l"
    and "tcp_run (tcp_accept tls_accept st (gelf_new cfg)) (conn_pool quiet (decode False)) process
      turns bl l d out = (bl', l', d', out', ctl, trace)"
    and sound: "\<forall>m. sound m"
  shows "tcp_result fate_of quiet (st_max_size_bytes st) cfg offered calm hist out (bl', l', d', out', ctl, trace)"
  using assms(1,5-8)
proof (induction turns arbitrary: bl l d out hist trace)
  case Nil
  then show ?case by (auto simp: tcp_result_def traced_def run_ends_def)
next
  case (Cons turn turns)
  let ?acc = "tcp_accept tls_accept st (gelf_new cfg)" and ?pool = "conn_pool quiet (decode False)"
  obtain new es where turn: "turn = (new, es)" by (metis surj_pair)
  obtain bl1 l1 d1 r where poll:
    "listen_poll ?acc ?pool (bl @ map tcp_incoming_poll new) es l d = (bl1, l1, d1, r)"
    by (metis prod_cases4)
  have ans: "listen_ans_ok quiet (st_max_size_bytes st) cfg offered calm (sockets bl1 @ turn_sockets turns)
      hist (connections l1) r"
    using listen_poll_inv [OF _ inj tls calm _ poll] Cons.prems(1,2) by (simp add: turn)
  note open1 = listen_poll_open [OF poll Cons.prems(3,4)]
  note IH = Cons.IH [OF _ _ open1(1,2)]
  consider (pending) "r = Pending" | (item) x where "r = Ready (Some (Ok x))"
    using ans open1(3) by (auto simp: listen_ans_ok_def split: poll.splits option.splits outcome.splits)
  then show ?case
  proof cases
    case pending
    with ans have "pool_inv quiet (st_max_size_bytes st) cfg offered calm (sockets bl1 @ turn_sockets turns)
        (connections l1) hist"
      by (simp add: listen_ans_ok_def)
    from IH [OF this] pending Cons.prems(2,5) poll turn show ?thesis by simp
  next
    case (item x)
    let ?ev = "Incoming (Some (Ok x))" and ?k = "conn_id (last (connections l1))"
    obtain i where i: "item_ok cfg (hist ?k) i x"
      "pool_inv quiet (st_max_size_bytes st) cfg offered calm (sockets bl1 @ turn_sockets turns)
        (connections l1) (hist(?k := hist ?k @ [i]))"
      using ans item by (auto simp: listen_ans_ok_def)
    let ?out2 = "out @ concat (map lines (complete_of ?ev))"
    obtain d2 c where step: "server_step process ?ev d1 out = (d2, ?out2, c)"
      and c: "run_ends (map fate_of (complete_of ?ev)) c"
      using item_step [of x d1 out] sound by blast
    show ?thesis
    proof (cases "Crashed \<in> set (map fate_of (complete_of ?ev))")
      case True
      then obtain q where q: "c = Unwind q" using c by (auto simp: run_ends_def)
      then have "trace = [(?k, x)]" "ctl = Unwind q" "out' = ?out2" "bl' = bl1" "l' = l1"
        using Cons.prems(5) poll turn item step by (auto simp: Let_def)
      with tcp_result_crash [of cfg hist ?k i x, OF i(1) True i(2)] show ?thesis by simp
    next
      case False
      then have "c = Continue" using c by (simp add: run_ends_def)
      then obtain trace' where rest: "tcp_run ?acc ?pool process turns bl1 l1 d2 ?out2 = (bl', l', d', out', ctl, trace')"
        and trace: "trace = (?k, x) # trace'"
        using Cons.prems(5) poll turn item step by (auto simp: Let_def split: prod.splits)
      have "\<forall>(new, es) \<in> set turns. \<forall>e \<in> set es. safe_answer cfg e \<and> (calm \<longrightarrow> calm_answer e)"
        using Cons.prems(2) by simp
      with tcp_result_item [of cfg hist ?k i x, OF i(1) False] IH [OF i(2) _ rest] trace show ?thesis by blast
    qed
  qed
qed

end

text \<open>
  The bound on the pool and the count of its connections, over a run with any processor. The
  stream neither ends nor fails, so the loop does not leave because of a client.
\<close>

context processor
begin

lemma tcp_run_pool:
  assumes "pool_ok l d" and "endless bl" and "\<not> accept_done l"
    and "tcp_run (tcp_accept tls_accept st receive) (conn_pool quiet (decode dbg)) process
      turns bl l d w = (bl', l', d', w', ctl, trace)"
  shows "pool_ok l' d' \<and> endless bl' \<and> \<not> accept_done l' \<and> max_connections l' = max_connections l \<and> ctl \<noteq> Break \<and>
    level_cell d' = level_cell d"
  using assms
proof (induction turns arbitrary: bl l d w trace)
  case Nil
  then show ?case by auto
next
  case (Cons turn turns)
  let ?acc = "tcp_accept tls_accept st receive" and ?pool = "conn_pool quiet (decode dbg)"
  obtain new es where turn: "turn = (new, es)" by (metis surj_pair)
  obtain bl1 l1 d1 r where poll:
    "listen_poll ?acc ?pool (bl @ map tcp_incoming_poll new) es l d = (bl1, l1, d1, r)"
    by (metis prod_cases4)
  note open1 = listen_poll_open(1,2) [OF poll Cons.prems(2,3)] and max = listen_poll_open(4) [OF poll Cons.prems(2,3)]
  have ok: "pool_ok l1 d1" and level: "level_cell d1 = level_cell d" and r: "r \<noteq> Ready None" "\<forall>e. r \<noteq> Ready (Some (Err e))"
    using gelf_listener.listen_poll_ok [OF Cons.prems(1) poll] listen_poll_open(3,5) [OF poll Cons.prems(2,3)] by auto
  show ?case
  proof (cases r)
    case Pending
    with Cons.IH [OF ok open1] Cons.prems(4) poll turn max level show ?thesis by simp
  next
    case (Ready x)
    then obtain y where x: "x = Some y" "\<forall>e. y \<noteq> Err e" using r by (cases x) auto
    obtain d2 w2 c where step: "server_step process (Incoming x) d1 w = (d2, w2, c)" by (metis prod_cases3)
    have ok2: "pool_ok l1 d2" and level2: "level_cell d2 = level_cell d"
      using ok level step_frame [OF step, of M_tcp_conn_accept] step_frame [OF step, of M_tcp_conn_close]
      by (simp_all add: pool_ok_def counted_open_def)
    show ?thesis
    proof (cases "c = Continue")
      case True
      obtain trace' where "tcp_run ?acc ?pool process turns bl1 l1 d2 w2 = (bl', l', d', w', ctl, trace')"
        using Cons.prems(4) poll turn Ready step True by (auto simp: Let_def split: prod.splits)
      from Cons.IH [OF ok2 open1 this] max level2 show ?thesis by simp
    next
      case False
      moreover have "c \<noteq> Break"
        using step x by (cases "(process, Incoming x, d1, w)" rule: server_step.cases)
          (auto simp: Let_def split: option.splits prod.splits outcome.splits)
      ultimately show ?thesis
        using Cons.prems(4) poll turn Ready step ok2 open1 max level2 by (cases c) (auto simp: Let_def)
    qed
  qed
qed

end

section \<open>The TCP side of the program\<close>

text \<open>
  The stream that \<open>Server::build\<close> sets up, with \<open>QuietClose\<close> around the connections that use
  TLS, feeds the loop.
\<close>

definition tcp_serve ::
  "bool \<Rightarrow> ('t \<Rightarrow> socket \<Rightarrow> socket result) \<Rightarrow> 't tcp_stream \<Rightarrow> receive_config \<Rightarrow> 'w process_fn \<Rightarrow>
   'addr turn list \<Rightarrow> diag \<Rightarrow> 'w \<Rightarrow>
   backlog \<times> gelf conn listen \<times> diag \<times> 'w \<times> control \<times> (nat \<times> received) list" where
  "tcp_serve dbg tls_accept st cfg process turns d w =
     tcp_run (tcp_accept tls_accept st (gelf_new cfg)) (conn_pool (st_tls st \<noteq> None) (decode dbg)) process
       turns [] (tcp_listen st) d w"

definition calm_run :: "('t \<Rightarrow> socket \<Rightarrow> socket result) \<Rightarrow> 't tcp_stream \<Rightarrow> 'addr turn list \<Rightarrow> bool" where
  "calm_run tls_accept st turns \<longleftrightarrow>
     calm_accept tls_accept st (set (turn_sockets turns)) \<and>
     calm_reads (st_tls st \<noteq> None) (set (turn_sockets turns)) \<and>
     (\<forall>(new, es) \<in> set turns. \<forall>e \<in> set es. calm_answer e)"

lemma pool_inv_start:
  assumes "distinct (map sock_id ws)"
  shows "pool_inv quiet m cfg (set ws) calm ws [] (\<lambda>_. [])"
  using assms by (simp add: pool_inv_def)

text \<open>
  An example: two clients, the second of which sends its message without a delimiter and
  closes, and is done before the first.
\<close>

definition two_clients :: "unit turn list" where
  "two_clients =
     [([Ready (Ok (\<lparr>sock_id = 0, sock_reads = [Inr [104], Inr [0]]\<rparr>, ())),
        Ready (Ok (\<lparr>sock_id = 1, sock_reads = [Inr [105], Inr []]\<rparr>, ()))],
       [[(0, [Read, Decode example_clock], False), (1, [Read, Read, Decode example_clock], False)]]),
      ([], [[(0, [Read, Decode example_clock], False)]]),
      ([], [[(0, [Decode example_clock], False)]])]"

definition plain_stream :: "unit tcp_stream" where
  "plain_stream = \<lparr>st_keep_alive = 1, st_max_size_bytes = 8, st_tls = None, st_max_connections = 1024\<rparr>"

definition sample_process :: "string list process_fn" where
  "sample_process = gelf_process sample_lib no_inflate (\<lambda>_. 9) (process_new default_process_config)"

lemmas run_defs = plain_stream_def tcp_serve_def tcp_listen_def listen_new_def tcp_accept_def accept_def
  accept_protocol_def timeout_new_def conn_poll_def framed_decode_def framed_new_def tcp_decode_new_def
  read_answer_def Let_def fill_conns_Nil fill_conns_accept

lemma plain_served:
  assumes "chars bs = [] \<or> hd (chars bs) \<noteq> CHR ''{''"
  shows "\<exists>d' out'. server_step sample_process (Incoming (Some (Ok (Complete (Single None bs))))) d out =
    (d', out', Continue)"
proof -
  let ?ev = "Incoming (Some (Ok (Complete (Single None bs))))"
  have "\<forall>m \<in> set (complete_of ?ev). formats_ok sample_lib sample_parse \<and>
      contents (message_mem no_inflate) m (plain_body m)"
    using libraries_ok_all [OF sample_libraries_ok] by blast
  then obtain d' out' ctl where "server_step sample_process ?ev d out = (d', out', ctl)"
    "run_ends (map (\<lambda>m. fate sample_lib sample_parse 9 (process_new default_process_config) (plain_body m))
      (complete_of ?ev)) ctl"
    unfolding sample_process_def by (rule gelf_printer.item_step)
  with sample_fate_plain [OF assms, of 9 "process_new default_process_config", THEN not_sym] show ?thesis
    by (auto simp: run_ends_def plain_body_def simp del: server_step.simps split: if_splits)
qed

lemma two_clients_run:
  "\<exists>l d' out'. tcp_serve False (\<lambda>_. Ok) plain_stream default_receive_config sample_process two_clients d [] =
     ([], l, d', out', Continue,
      [(1, Complete (Single None [105])), (0, Complete (Single None [104]))]) \<and>
   map conn_id (connections l) = [0]"
proof -
  have fine: "chars [104] = [] \<or> hd (chars [104]) \<noteq> CHR ''{''" "chars [105] = [] \<or> hd (chars [105]) \<noteq> CHR ''{''"
    by code_simp+
  have "\<exists>s. server_step sample_process (Incoming (Some (Ok (Complete (Single None bs))))) d w =
      (fst s, snd s, Continue)" if "chars bs = [] \<or> hd (chars bs) \<noteq> CHR ''{''" for bs d w
    using plain_served [OF that] by (metis fst_conv snd_conv)
  then obtain S where step: "\<And>bs d w. chars bs = [] \<or> hd (chars bs) \<noteq> CHR ''{'' \<Longrightarrow>
      server_step sample_process (Incoming (Some (Ok (Complete (Single None bs))))) d w =
      (fst (S bs d w), snd (S bs d w), Continue)"
    by metis
  note step = step [OF fine(1)] step [OF fine(2)]
  show ?thesis
    unfolding two_clients_def
    by (simp add: run_defs del: server_step.simps)
      (simp add: run_defs tcp_decode.simps tcp_decode_eof_def slice_from_def step decode_def single_def
        peek_magic_bytes_def detect_def remove_nth_def idle_result_def saturating_add_def
        del: server_step.simps)
qed

section \<open>Properties\<close>

text \<open>
  C7: from TCP connections to output. Any number of clients connect, with or without TLS, send
  bytes in any pieces and close, break off or time out, and the runtime accepts, reads, decodes
  and polls in any order, in a release build, with clocks that do not underflow. The output
  grows by the lines of the messages that come out, in that order: one for each that parses,
  none for one that does not parse or cannot be decompressed. The loop is still running
  afterwards, unless a message crashes because the time of its event cannot be printed, which
  unwinds the loop. Nothing comes from anywhere but the clients, and what has come from a
  client is what its own receiver makes of the frames it sends, in its order, none lost,
  repeated or mixed with another's: a part from the start of them. In a run with no crash, failed
  handshake, failed read or timeout it is all of them once the client has been accepted and
  its connection has left the pool.
\<close>

theorem tcp_output:
  assumes "tcp_serve False tls_accept st cfg (gelf_process lib z now p) turns d out =
      (bl, l, d', out', ctl, trace)"
    and "distinct (map sock_id (turn_sockets turns))" and "handshakes tls_accept"
    and "\<forall>(new, es) \<in> set turns. \<forall>e \<in> set es. safe_answer cfg e"
    and "libraries_ok lib parse z body"
    and "f = (\<lambda>m. fate lib parse (now m) p (body m))"
  shows "(if \<exists>m \<in> set (trace_messages trace). f m = Crashed then \<exists>q. ctl = Unwind q else ctl = Continue) \<and>
    out' = out @ concat (map (\<lambda>m. fate_lines (f m)) (trace_messages trace)) \<and>
    (\<forall>m. f m \<noteq> Crashed \<longrightarrow>
       length (fate_lines (f m)) = (if Option.bind (body m) parse = None then 0 else 1)) \<and>
    fst ` set trace \<subseteq> sock_id ` set (turn_sockets turns) \<and>
    (\<forall>s \<in> set (turn_sockets turns). \<exists>h.
       map received_of (outcomes cfg h) = map Ok (items_of (sock_id s) trace) \<and>
       prefix (map snd h) (socket_frames (st_tls st \<noteq> None) (st_max_size_bytes st) s) \<and>
       (ctl = Continue \<and> calm_run tls_accept st turns \<and>
        sock_id s \<notin> sock_id ` set (sockets bl) \<and> sock_id s \<notin> conn_id ` set (connections l) \<longrightarrow>
        map snd h = socket_frames (st_tls st \<noteq> None) (st_max_size_bytes st) s))"
proof -
  let ?ws = "turn_sockets turns" and ?calm = "calm_run tls_accept st turns"
  have new: "connections (tcp_listen st :: gelf conn listen) = []"
    "\<not> accept_done (tcp_listen st :: gelf conn listen)" "endless []"
    by (simp_all add: tcp_listen_def listen_new_def endless_def)
  have inv: "pool_inv (st_tls st \<noteq> None) (st_max_size_bytes st) cfg (set ?ws) ?calm
      (sockets [] @ ?ws) (connections (tcp_listen st)) (\<lambda>_. [])"
    using pool_inv_start [OF assms(2)] new(1) by simp
  have inj: "inj_on sock_id (set ?ws)" using assms(2) by (simp add: distinct_map)
  have answers: "\<forall>(new, es) \<in> set turns. \<forall>e \<in> set es. safe_answer cfg e \<and> (?calm \<longrightarrow> calm_answer e)"
    using assms(4) by (auto simp: calm_run_def)
  from gelf_printer.tcp_run_histories [OF inv inj assms(3) _ answers new(3,2) assms(1) [unfolded tcp_serve_def]
      libraries_ok_all [OF assms(5)]]
  obtain hist ws where ctl: "run_ends (map f (trace_messages trace)) ctl"
    and out: "out' = out @ concat (map (\<lambda>m. fate_lines (f m)) (trace_messages trace))"
    and traced: "traced cfg (\<lambda>_. []) hist trace" and ws: "ctl = Continue \<longrightarrow> ws = []"
    and inv': "pool_inv (st_tls st \<noteq> None) (st_max_size_bytes st) cfg (set ?ws) ?calm
      (sockets bl @ ws) (connections l) hist"
    unfolding assms(6) by (auto simp: calm_run_def tcp_result_def)
  have trace: "map received_of (outcomes cfg (hist k)) = map Ok (items_of k trace)" for k
    using traced by (simp add: traced_def)
  have "k \<in> sock_id ` set ?ws" if "(k, x) \<in> set trace" for k x
  proof (rule ccontr)
    assume "k \<notin> sock_id ` set ?ws"
    from trace [of k] pool_invD(7) [OF inv' this] have "items_of k trace = []" by simp
    with that show False by (auto simp: items_of_def filter_empty_conv)
  qed
  then have clients: "fst ` set trace \<subseteq> sock_id ` set ?ws" by auto
  have one: "\<forall>m. f m \<noteq> Crashed \<longrightarrow>
      length (fate_lines (f m)) = (if Option.bind (body m) parse = None then 0 else 1)"
    using fate_lines_length [of lib parse] assms(5,6) by (auto simp: libraries_ok_def formats_ok_def)
  have ends: "if \<exists>m \<in> set (trace_messages trace). f m = Crashed then \<exists>q. ctl = Unwind q else ctl = Continue"
    using ctl by (auto simp: run_ends_def image_iff split: if_splits)
  have "map received_of (outcomes cfg (hist (sock_id s))) = map Ok (items_of (sock_id s) trace) \<and>
      prefix (map snd (hist (sock_id s))) (socket_frames (st_tls st \<noteq> None) (st_max_size_bytes st) s) \<and>
      (ctl = Continue \<and> ?calm \<and>
       sock_id s \<notin> sock_id ` set (sockets bl) \<and> sock_id s \<notin> conn_id ` set (connections l) \<longrightarrow>
       map snd (hist (sock_id s)) = socket_frames (st_tls st \<noteq> None) (st_max_size_bytes st) s)"
    if "s \<in> set ?ws" for s
    using trace pool_invD(5,6) [OF inv' that] ws by auto
  with ends out one clients show ?thesis by blast
qed

theorem tcp_output_witness:
  "\<exists>l d' out' h.
     tcp_serve False (\<lambda>_. Ok) plain_stream default_receive_config sample_process two_clients (initial_diag 0) [] =
       ([], l, d', out', Continue,
        [(1, Complete (Single None [105])), (0, Complete (Single None [104]))]) \<and>
     out' = fate_lines (fate sample_lib sample_parse 9 (process_new default_process_config) (Some [105]))
       @ fate_lines (fate sample_lib sample_parse 9 (process_new default_process_config) (Some [104])) \<and>
     map received_of (outcomes default_receive_config h) = [Ok (Complete (Single None [105]))] \<and>
     map snd h = [[105]]"
proof -
  let ?s0 = "\<lparr>sock_id = 0, sock_reads = [Inr [104], Inr [0]]\<rparr>"
    and ?s1 = "\<lparr>sock_id = 1, sock_reads = [Inr [105], Inr []]\<rparr>"
  obtain l d' out' where run: "tcp_serve False (\<lambda>_. Ok) plain_stream default_receive_config
      sample_process two_clients (initial_diag 0) [] = ([], l, d', out', Continue,
        [(1, Complete (Single None [105])), (0, Complete (Single None [104]))])"
    and pool: "map conn_id (connections l) = [0]"
    by (rule exE [OF two_clients_run [of "initial_diag 0"]]) (elim exE conjE)
  have sent: "turn_sockets two_clients = [?s0, ?s1]" by (simp add: two_clients_def)
  have clk: "\<not> clock_underflow default_receive_config example_clock"
    by (simp add: clock_underflow_def default_receive_config_def example_clock_def from_millis_def)
  have safe: "\<forall>(new, es) \<in> set two_clients. \<forall>e \<in> set es. safe_answer default_receive_config e"
    using clk by (simp add: two_clients_def safe_answer_def safe_action_def)
  have calm: "calm_run (\<lambda>_. Ok) plain_stream two_clients"
    unfolding calm_run_def sent
    by (simp add: two_clients_def plain_stream_def calm_accept_def calm_reads_def calm_answer_def read_answer_def)
  have "stream_frames 8 [105] True = [[105]]"
    by (simp add: stream_frames_def complete_frames.simps open_frame.simps)
  then have frames: "socket_frames False 8 ?s1 = [[105]]"
    by (simp add: socket_frames_def read_answer_def)
  have "1 \<notin> conn_id ` set (connections l)"
    using arg_cong [OF pool, of set] by simp
  note left = this
  have out: "out' = fate_lines (fate sample_lib sample_parse 9 (process_new default_process_config) (Some [105]))
      @ fate_lines (fate sample_lib sample_parse 9 (process_new default_process_config) (Some [104]))"
    and all: "\<forall>s \<in> {?s0, ?s1}. \<exists>h. map received_of (outcomes default_receive_config h) =
        map Ok (items_of (sock_id s)
          [(1, Complete (Single None [105])), (0, Complete (Single None [104]))]) \<and>
       prefix (map snd h) (socket_frames False 8 s) \<and>
       (sock_id s \<notin> conn_id ` set (connections l) \<longrightarrow> map snd h = socket_frames False 8 s)"
    using tcp_output [OF run [unfolded sample_process_def] _ _ _ sample_libraries_ok refl] sent safe calm
    by (simp_all add: handshakes_def plain_stream_def plain_body_def)
  from bspec [OF all, of ?s1] left frames
  have "\<exists>h. map received_of (outcomes default_receive_config h) = [Ok (Complete (Single None [105]))] \<and>
      map snd h = [[105]]"
    by (simp del: map_eq_Cons_conv) (elim exE conjE, intro exI conjI)
  with run out show ?thesis by (elim exE conjE) (intro exI conjI, rule run)
qed



end
