(* ===== verification/Compressed.thy ===== *)
theory Compressed
  imports Udp_Serve
begin

text \<open>
  Compressed messages: what the program relies on of the decompressors of \<open>libflate\<close>, and
  what a compressed payload prints, sent as one datagram or in chunks.
\<close>

section \<open>The contract of a decompressor\<close>

text \<open>
  A decompressor made from a reader of compressed bytes reads the bytes that were compressed,
  and compressed bytes start with the two bytes that say how.
\<close>

definition decompresses ::
  "(chunk_read \<Rightarrow> 'g result) \<Rightarrow> ('g \<Rightarrow> nat \<Rightarrow> 'g \<times> bytes result) \<Rightarrow> (bytes \<Rightarrow> bytes) \<Rightarrow> bool" where
  "decompresses new rd enc \<longleftrightarrow>
     (\<forall>s bs. cr_inv s \<and> cr_remaining s = enc bs \<longrightarrow> (\<exists>g. new s = Ok g \<and> reads_all rd g bs))"

definition compressor :: "('g, 'z) inflate \<Rightarrow> compression \<Rightarrow> (bytes \<Rightarrow> bytes) \<Rightarrow> bool" where
  "compressor z c enc \<longleftrightarrow>
     (case c of
        Gzip \<Rightarrow> decompresses (gzip_new z) (gzip_read z) enc
      | Zlib \<Rightarrow> decompresses (zlib_new z) (zlib_read z) enc) \<and>
     (\<forall>bs. Option.bind (peek_magic_bytes (enc bs)) detect = Some c)"

lemma compressorD:
  assumes "compressor z c enc"
  shows "c = Gzip \<Longrightarrow> decompresses (gzip_new z) (gzip_read z) enc"
    and "c = Zlib \<Longrightarrow> decompresses (zlib_new z) (zlib_read z) enc"
    and "Option.bind (peek_magic_bytes (enc bs)) detect = Some c"
  using assms by (simp_all add: compressor_def)

lemma decompressesD:
  assumes "decompresses new rd enc" and "cr_inv s" and "cr_remaining s = enc bs"
  obtains g where "new s = Ok g" "reads_all rd g bs"
  using assms unfolding decompresses_def by blast

text \<open>A wrapper around a reader reads what the reader does.\<close>

lemma read_to_end_wrapped:
  assumes "read_to_end rd sz s acc = Some x"
    and "\<And>s n. rd' (f s) n = (case rd s n of (s', r) \<Rightarrow> (f s', r))"
  shows "read_to_end rd' sz (f s) acc = Some x"
proof -
  let ?P = "\<lambda>rd0 sz0 s acc x. rd0 = rd \<longrightarrow> sz0 = sz \<longrightarrow> read_to_end rd' sz (f s) acc = Some x"
  have "?P rd sz s acc x"
  proof (rule read_to_end.raw_induct [of ?P, OF _ assms(1)])
    fix self rd0 sz0 s acc x
    assume IH: "\<And>rd0 sz0 s acc x. self rd0 sz0 s acc = Some x \<Longrightarrow> ?P rd0 sz0 s acc x"
      and step: "(case rd0 s (sz0 (length acc)) of
          (s', Ok bs) \<Rightarrow> if bs = [] then Some (Ok acc) else self rd0 sz0 s' (acc @ bs)
        | (s', Err e) \<Rightarrow> Some (Err e) | (s', Panic p) \<Rightarrow> Some (Panic p)) = Some x"
    obtain s' r where read: "rd0 s (sz0 (length acc)) = (s', r)" by (metis surj_pair)
    show "?P rd0 sz0 s acc x"
      using step read IH [of rd sz s' _ x]
      by (cases r) (auto simp: read_to_end.simps [of rd' sz "f s" acc] assms(2) split: if_splits)
  qed
  then show ?thesis by simp
qed

lemma reads_all_wrapped:
  assumes "reads_all rd s bs" and "\<And>s n. rd' (f s) n = (case rd s n of (s', r) \<Rightarrow> (f s', r))"
  shows "reads_all rd' (f s) bs"
  using assms read_to_end_wrapped [of rd _ s "[]" "Ok bs" rd' f] by (auto simp: reads_all_def)

text \<open>A message of compressed bytes is read as what was compressed.\<close>

lemma compressed_reads:
  assumes enc: "compressor z c enc" and m: "message_compression m = Some c" "message_body m = enc bs"
  shows "reads_as (message_mem z) m bs"
proof -
  let ?s = "\<lparr>cr_chunk = 0, cr_cursor = 0, cr_msg = m\<rparr>"
  have s: "cr_inv ?s" "cr_remaining ?s = enc bs"
    using m by (simp_all add: cr_inv_start cr_remaining_start)
  have none: "message_bytes m = None"
    using m(1) by (cases m rule: message_bytes.cases) auto
  show ?thesis
  proof (cases c)
    case Gzip
    obtain g where "gzip_new z ?s = Ok g" "reads_all (gzip_read z) g bs"
      by (rule decompressesD [OF compressorD(1) [OF enc Gzip] s])
    with none m Gzip reads_all_wrapped [of "gzip_read z" g bs "reader_read z" Gzip_reader] show ?thesis
      by (simp add: reads_as_def message_mem_def into_reader_def)
  next
    case Zlib
    obtain g where "zlib_new z ?s = Ok g" "reads_all (zlib_read z) g bs"
      by (rule decompressesD [OF compressorD(2) [OF enc Zlib] s])
    with none m Zlib reads_all_wrapped [of "zlib_read z" g bs "reader_read z" Zlib_reader] show ?thesis
      by (simp add: reads_as_def message_mem_def into_reader_def)
  qed
qed

text \<open>The compression of chunks is found in the first of them, if it has two bytes.\<close>

lemma compression_of_chunks:
  assumes "compressor z c enc" and "concat (first # rest) = enc bs" and "2 \<le> length first"
  shows "message_compression (Chunked (first # rest)) = Some c"
  using compressorD(3) [OF assms(1), of bs] peek_first_piece [OF assms(3), of "concat rest"] assms(2) by simp

section \<open>An instance\<close>

text \<open>Formats that only mark the bytes: the decompressor skips the mark.\<close>

definition skip_mark :: "chunk_read \<Rightarrow> chunk_read result" where
  "skip_mark s = (case read_chunk_read s 2 of (s', r) \<Rightarrow> outcome_bind r (\<lambda>_. Ok s'))"

definition marking :: "(chunk_read, chunk_read) inflate" where
  "marking = \<lparr>gzip_new = skip_mark, gzip_read = read_chunk_read, zlib_new = skip_mark, zlib_read = read_chunk_read\<rparr>"

lemma skip_mark_decompresses: "decompresses skip_mark read_chunk_read (\<lambda>bs. a # b # bs)"
proof -
  have "\<exists>g. skip_mark s = Ok g \<and> reads_all read_chunk_read g bs"
    if "cr_inv s" "cr_remaining s = a # b # bs" for s bs
    using chunk_read_correct [OF that(1), of 2] that(2)
    by (auto simp: skip_mark_def reads_all_def cr.read_to_end_total)
  then show ?thesis by (simp add: decompresses_def)
qed

lemma marking_compressor:
  "compressor marking Gzip (\<lambda>bs. 0x1f # 0x8b # bs)" "compressor marking Zlib (\<lambda>bs. 0x78 # 0x9c # bs)"
  using skip_mark_decompresses
  by (simp_all add: compressor_def marking_def detect_def MAGIC_GZIP_def MAGIC_ZLIB_def)

section \<open>Properties\<close>

text \<open>
  C6: compression is invisible. A payload is compressed with gzip or zlib and sent as one
  datagram, or cut into chunks of which the first has the two bytes that tell the compression,
  sent in any order, each once, within the timeout. Given the contract of the decompressor, in
  a release build the program's output grows by exactly what the payload itself gives: the
  line of its event if it parses, nothing otherwise. The loop goes on, except that it unwinds
  if the time of the event cannot be printed.
\<close>

theorem compressed_end_to_end:
  assumes "compressor z c enc" and "formats_ok lib parse"
    and "\<forall>clk \<in> set clks. clock_ok cfg clk \<and> in_window cfg start clk"
    and "1 < n" and "n \<le> max_chunks_per_message cfg" and "unat n \<le> unat (incomplete_capacity cfg)"
    and "length clks = length ks" and "distinct ks" and "set ks = of_nat ` {..<unat n}"
    and "parts = map (\<lambda>j. part (of_nat j)) [0..<unat n]" and "concat parts = enc bs" and "2 \<le> length (part 0)"
    and "udp_serve (decode False) (gelf_process lib z (\<lambda>_. t) p)
      (zip clks (map (\<lambda>k. udp_chunk i k n (part k)) ks)) d (gelf_new cfg) out = (d1, g1, out1, ctl1)"
    and "clock_ok cfg clk"
    and "udp_serve (decode False) (gelf_process lib z (\<lambda>_. t) p)
      [(clk, enc bs)] d (gelf_new cfg) out = (d2, g2, out2, ctl2)"
  shows "out1 = out @ fate_lines (fate lib parse t p (Some bs)) \<and> out2 = out1 \<and>
    (if fate lib parse t p (Some bs) = Crashed then (\<exists>q. ctl1 = Unwind q) \<and> (\<exists>q. ctl2 = Unwind q)
     else ctl1 = Continue \<and> ctl2 = Continue)"
proof -
  have "0 < unat n" using assms(4) by (simp add: word_less_nat_alt)
  then have parts: "parts = part 0 # map (\<lambda>j. part (of_nat j)) [1..<unat n]"
    using assms(10) by (simp add: upt_conv_Cons)
  have m: "message_compression (Chunked parts) = Some c" "message_body (Chunked parts) = enc bs"
    using compression_of_chunks [OF assms(1) _ assms(12)] assms(11) parts by (metis, simp)
  have "contents (message_mem z) (Chunked parts) (Some bs)"
    using compressed_reads [OF assms(1) m] by (simp add: contents_def)
  note chunked = chunks_to_output [OF assms(4-6,3,7-9) _ assms(2) this assms(13)]
  have c: "Option.bind (peek_magic_bytes (enc bs)) detect = Some c" by (rule compressorD(3) [OF assms(1)])
  then have whole: "enc bs \<noteq> []" "peek_magic_bytes (enc bs) \<noteq> Some MAGIC_CHUNKED"
    using detect_exclusive by auto
  have "contents (message_mem z) (Single (Option.bind (peek_magic_bytes (enc bs)) detect) (enc bs)) (Some bs)"
    using compressed_reads [OF assms(1), of "Single (Some c) (enc bs)" bs] c by (simp add: contents_def)
  note single = datagram_to_output [OF assms(14) whole refl assms(2) this assms(15)]
  from chunked assms(10) single show ?thesis by (auto simp: run_ends_def)
qed

theorem compressed_end_to_end_witness:
  "\<exists>d1 g1 out1 ctl1.
     udp_serve (decode False) (gelf_process sample_library marking (\<lambda>_. 9) (process_new default_process_config))
       [(example_clock, udp_chunk 7 1 2 [104, 105]), (example_clock, udp_chunk 7 0 2 [0x1f, 0x8b])]
       (initial_diag 0) (gelf_new default_receive_config) [] = (d1, g1, out1, ctl1) \<and>
     ctl1 = Continue \<and>
     out1 = fate_lines (fate (sample_library :: (_, _, _, (chunk_read, chunk_read) reader) process_lib) sample_parse 9
       (process_new default_process_config) (Some [104, 105]))"
proof -
  let ?lib = "sample_library :: (_, _, _, (chunk_read, chunk_read) reader) process_lib"
    and ?part = "\<lambda>k :: u8. if k = 0 then [0x1f, 0x8b] else [104, 105] :: bytes"
  let ?p = "process_new default_process_config"
  let ?serve = "\<lambda>ins. udp_serve (decode False) (gelf_process ?lib marking (\<lambda>_. 9) ?p) ins
      (initial_diag 0) (gelf_new default_receive_config) []"
  obtain d1 g1 out1 ctl1 where run1:
    "?serve (zip [example_clock, example_clock] (map (\<lambda>k. udp_chunk 7 k 2 (?part k)) [1, 0])) = (d1, g1, out1, ctl1)"
    using prod_cases4 by blast
  obtain d2 g2 out2 ctl2 where run2: "?serve [(example_clock, 0x1f # 0x8b # [104, 105])] = (d2, g2, out2, ctl2)"
    using prod_cases4 by blast
  have "{..<unat (2 :: u8)} = {0, 1}" by auto
  then have sets: "set [1, 0] = (of_nat :: nat \<Rightarrow> u8) ` {..<unat (2 :: u8)}" by auto
  have parts: "[[0x1f, 0x8b], [104, 105]] = map (\<lambda>j. ?part (of_nat j)) [0..<unat (2 :: u8)]"
    by (simp add: upt_rec)
  have ok: "formats_ok ?lib sample_parse"
    using sample_contracts by (auto simp: formats_ok_def)
  have fine: "fate ?lib sample_parse 9 ?p (Some [104, 105]) \<noteq> Crashed"
    by (rule sample_fate_plain) code_simp
  have "out1 = [] @ fate_lines (fate ?lib sample_parse 9 ?p (Some [104, 105])) \<and> out2 = out1 \<and>
      (if fate ?lib sample_parse 9 ?p (Some [104, 105]) = Crashed
       then (\<exists>q. ctl1 = Unwind q) \<and> (\<exists>q. ctl2 = Unwind q) else ctl1 = Continue \<and> ctl2 = Continue)"
    by (rule compressed_end_to_end [OF marking_compressor(1) ok _ _ _ _ _ _ sets parts _ _ run1 _ run2])
      (use example_clock_ok in \<open>auto simp: default_receive_config_def\<close>)
  with run1 fine show ?thesis by simp
qed

end
