(* ===== verification/Receive_Tests.thy ===== *)
theory Receive_Tests
  imports Compressed
begin

text \<open>
  The unit tests of \<open>receive.rs\<close>, run on the model. A test is true when none of its
  \<open>expect\<close>s and assertions fails. It runs in a build that checks arithmetic, with the readings
  of the clock that its calls of \<open>decode\<close> see, and with the encoders of \<open>libflate\<close>.
\<close>

section \<open>What the tests use\<close>

definition test_chunk :: "u64 \<Rightarrow> u8 \<Rightarrow> u8 \<Rightarrow> bytes \<Rightarrow> bytes" where
  "test_chunk i num count bytes =
     (let header = [0x1e, 0x0f];
          idb = be_bytes i
      in (((header @ idb) @ [num]) @ [count]) @ bytes)"

text \<open>What the datagrams give, one after the other, in a new decoder.\<close>

definition test_results ::
  "receive_config \<Rightarrow> diag \<Rightarrow> (clock \<times> bytes) list \<Rightarrow> message option result list" where
  "test_results cfg d ins = snd (snd (decode_run True d (gelf_new cfg) ins))"

fun decoded :: "message option result \<Rightarrow> bool" where
  "decoded (Ok _) = True"
| "decoded _ = False"

fun is_err :: "message option result \<Rightarrow> bool" where
  "is_err (Err _) = True"
| "is_err _ = False"

text \<open>The last message is read to its end as a string.\<close>

definition test_read :: "('g, 'z) inflate \<Rightarrow> (nat \<Rightarrow> nat) \<Rightarrow> message option result \<Rightarrow> string \<Rightarrow> bool" where
  "test_read z sz r expected \<longleftrightarrow>
     (case r of
        Ok (Some m) \<Rightarrow>
          (case into_reader z m of
             Ok rd \<Rightarrow> read_to_string (reader_read z) sz rd = Some (Ok expected)
           | _ \<Rightarrow> False)
      | _ \<Rightarrow> False)"

section \<open>The tests\<close>

definition message_empty :: "clock \<Rightarrow> diag \<Rightarrow> bool" where
  "message_empty c d \<longleftrightarrow> (test_results default_receive_config d [(c, [])]) = [Ok None]"

definition message_unchunked :: "clock \<Rightarrow> diag \<Rightarrow> bool" where
  "message_unchunked c d \<longleftrightarrow>
     test_results default_receive_config d [(c, ascii ''Hello!'')] =
     [Ok (Some (Single None (ascii ''Hello!'')))]"

definition read_message_unchunked_uncompressed ::
  "('g, 'z) inflate \<Rightarrow> (nat \<Rightarrow> nat) \<Rightarrow> clock \<Rightarrow> diag \<Rightarrow> bool" where
  "read_message_unchunked_uncompressed z sz c d \<longleftrightarrow>
     (let rs = test_results default_receive_config d [(c, ascii ''Hello!'')]
      in test_read z sz (rs ! 0) ''Hello!'')"

definition read_message_unchunked_gzip ::
  "('g, 'z) inflate \<Rightarrow> (nat \<Rightarrow> nat) \<Rightarrow> (bytes \<Rightarrow> bytes) \<Rightarrow> clock \<Rightarrow> diag \<Rightarrow> bool" where
  "read_message_unchunked_gzip z sz gzip c d \<longleftrightarrow>
     (let rs = test_results default_receive_config d [(c, gzip (ascii ''Hello!''))]
      in test_read z sz (rs ! 0) ''Hello!'')"

definition read_message_unchunked_zlib ::
  "('g, 'z) inflate \<Rightarrow> (nat \<Rightarrow> nat) \<Rightarrow> (bytes \<Rightarrow> bytes) \<Rightarrow> clock \<Rightarrow> diag \<Rightarrow> bool" where
  "read_message_unchunked_zlib z sz zlib c d \<longleftrightarrow>
     (let rs = test_results default_receive_config d [(c, zlib (ascii ''Hello!''))]
      in test_read z sz (rs ! 0) ''Hello!'')"

definition message_single_chunk :: "clock \<Rightarrow> diag \<Rightarrow> bool" where
  "message_single_chunk c d \<longleftrightarrow>
     test_results default_receive_config d [(c, test_chunk 0 0 1 (ascii ''Hello!''))] =
     [Ok (Some (Single None (ascii ''Hello!'')))]"

definition message_chunked_empty :: "clock \<Rightarrow> diag \<Rightarrow> bool" where
  "message_chunked_empty c d \<longleftrightarrow>
     (test_results default_receive_config d [(c, test_chunk 0 0 1 [])]) = [Ok None]"

definition message_multiple_chunks :: "clock \<times> clock \<times> clock \<Rightarrow> diag \<Rightarrow> bool" where
  "message_multiple_chunks cs d \<longleftrightarrow>
     (case cs of (c1, c2, c3) \<Rightarrow>
        (test_results default_receive_config d
          [(c1, test_chunk 0 0 3 (ascii ''Hello'')), (c2, test_chunk 0 2 3 (ascii ''!'')),
           (c3, test_chunk 0 1 3 (ascii '' World''))]) =
        [Ok None, Ok None, Ok (Some (Chunked [ascii ''Hello'', ascii '' World'', ascii ''!'']))])"

definition read_message_chunked_uncompressed ::
  "('g, 'z) inflate \<Rightarrow> (nat \<Rightarrow> nat) \<Rightarrow> clock \<times> clock \<times> clock \<Rightarrow> diag \<Rightarrow> bool" where
  "read_message_chunked_uncompressed z sz cs d \<longleftrightarrow>
     (case cs of (c1, c2, c3) \<Rightarrow>
        let rs = (test_results default_receive_config d
          [(c1, test_chunk 0 0 3 (ascii ''Hello'')), (c2, test_chunk 0 2 3 (ascii ''!'')),
           (c3, test_chunk 0 1 3 (ascii '' World''))])
        in decoded (rs ! 0) \<and> decoded (rs ! 1) \<and> test_read z sz (rs ! 2) ''Hello World!'')"

text \<open>A slice that is out of range panics.\<close>

definition read_message_chunked_zlib ::
  "('g, 'z) inflate \<Rightarrow> (nat \<Rightarrow> nat) \<Rightarrow> (bytes \<Rightarrow> bytes) \<Rightarrow> clock \<times> clock \<times> clock \<Rightarrow> diag \<Rightarrow> bool" where
  "read_message_chunked_zlib z sz zlib cs d \<longleftrightarrow>
     (case cs of (c1, c2, c3) \<Rightarrow>
        let buf = zlib (ascii ''Hello World!'')
        in 4 \<le> length buf \<and>
           (let rs = (test_results default_receive_config d
              [(c1, test_chunk 0 0 3 (take 2 buf)), (c2, test_chunk 0 2 3 (drop 4 buf)),
               (c3, test_chunk 0 1 3 (take 2 (drop 2 buf)))])
            in decoded (rs ! 0) \<and> decoded (rs ! 1) \<and> test_read z sz (rs ! 2) ''Hello World!''))"

definition read_message_chunked_gzip ::
  "('g, 'z) inflate \<Rightarrow> (nat \<Rightarrow> nat) \<Rightarrow> (bytes \<Rightarrow> bytes) \<Rightarrow> clock \<times> clock \<times> clock \<Rightarrow> diag \<Rightarrow> bool" where
  "read_message_chunked_gzip z sz gzip cs d \<longleftrightarrow>
     (case cs of (c1, c2, c3) \<Rightarrow>
        let buf = gzip (ascii ''Hello World!'')
        in 4 \<le> length buf \<and>
           (let rs = (test_results default_receive_config d
              [(c1, test_chunk 0 0 3 (take 2 buf)), (c2, test_chunk 0 2 3 (drop 4 buf)),
               (c3, test_chunk 0 1 3 (take 2 (drop 2 buf)))])
            in decoded (rs ! 0) \<and> decoded (rs ! 1) \<and> test_read z sz (rs ! 2) ''Hello World!''))"

definition when_capacity_is_reached_all_incomplete_messages_are_dropped ::
  "clock \<times> clock \<times> clock \<Rightarrow> diag \<Rightarrow> bool" where
  "when_capacity_is_reached_all_incomplete_messages_are_dropped cs d \<longleftrightarrow>
     (case cs of (c1, c2, c3) \<Rightarrow>
        let cfg = default_receive_config\<lparr>incomplete_capacity := 2\<rparr>
        in case decode_run True d (gelf_new cfg)
                  [(c1, test_chunk 0 0 3 (ascii ''1'')), (c2, test_chunk 1 0 3 (ascii ''2''))] of
             (d, g, rs) \<Rightarrow>
               list_all decoded rs \<and>
               length (by_id g) = 2 \<and> length (arrival_chunks (by_arrival g)) = 2 \<and>
               (case decode True c3 d g (test_chunk 2 0 3 (ascii ''2'')) of
                  (d, g, r) \<Rightarrow>
                    decoded r \<and>
                    length (arrival_chunks (by_arrival g)) = 1 \<and> length (by_id g) = 1 \<and>
                    fst (by_id g ! 0) = 2))"

text \<open>The sleep of five milliseconds is in the reading of the third clock.\<close>

definition when_timeout_expires_incomplete_messages_are_dropped ::
  "clock \<times> clock \<times> clock \<Rightarrow> diag \<Rightarrow> bool" where
  "when_timeout_expires_incomplete_messages_are_dropped cs d \<longleftrightarrow>
     (case cs of (c1, c2, c3) \<Rightarrow>
        let cfg = default_receive_config\<lparr>incomplete_timeout_ms := 2\<rparr>
        in case decode_run True d (gelf_new cfg)
                  [(c1, test_chunk 0 0 3 (ascii ''1'')), (c2, test_chunk 1 0 3 (ascii ''2'')),
                   (c3, test_chunk 2 0 3 (ascii ''2''))] of
             (d, g, rs) \<Rightarrow>
               list_all decoded rs \<and>
               length (arrival_chunks (by_arrival g)) = 1 \<and> length (by_id g) = 1 \<and>
               fst (by_id g ! 0) = 2)"

definition adding_chunked_message_with_too_many_chunks_fails :: "clock \<Rightarrow> diag \<Rightarrow> bool" where
  "adding_chunked_message_with_too_many_chunks_fails c d \<longleftrightarrow>
     (let cfg = default_receive_config\<lparr>max_chunks_per_message := 1\<rparr>;
          rs = test_results cfg d [(c, test_chunk 0 0 3 (ascii ''1''))]
      in is_err (rs ! 0))"

definition adding_more_chunks_than_expected_to_chunked_message_fails :: "clock \<times> clock \<Rightarrow> diag \<Rightarrow> bool" where
  "adding_more_chunks_than_expected_to_chunked_message_fails cs d \<longleftrightarrow>
     (case cs of (c1, c2) \<Rightarrow>
        let rs = (test_results default_receive_config d
          [(c1, test_chunk 0 0 3 (ascii ''1'')), (c2, test_chunk 0 3 3 (ascii ''3''))])
        in decoded (rs ! 0) \<and> is_err (rs ! 1))"

section \<open>They pass\<close>

lemma test_chunk_udp_chunk [simp]: "test_chunk i k n bs = udp_chunk i k n bs"
  by (simp add: test_chunk_def udp_chunk_def Let_def)

text \<open>The results and the messages that are kept, by the abstract machine.\<close>

lemma run_spec:
  assumes "\<forall>(clk, src) \<in> set ins. clock_ok cfg clk" and "length ins \<le> 3"
    and run: "decode_run True d (gelf_new cfg) ins = (d', g, rs)"
  shows "spec_run True cfg (\<lambda>_. None) ins = (abs_gelf g, rs)" and "gelf_inv g"
proof -
  have left: "length ins \<le> counter_left (gelf_new cfg)"
    using assms(2) by (simp add: gelf_new_facts)
  show "spec_run True cfg (\<lambda>_. None) ins = (abs_gelf g, rs)"
    using decode_run_refines [OF gelf_inv_new left _ run] assms(1) by (simp add: gelf_new_facts)
  show "gelf_inv g"
    using decode_run_inv [OF gelf_inv_new _ left run]
    by (simp add: within_capacity_def gelf_new_def)
qed

lemma test_results_spec:
  assumes "\<forall>(clk, src) \<in> set ins. clock_ok cfg clk" and "length ins \<le> 3"
  shows "test_results cfg d ins = snd (spec_run True cfg (\<lambda>_. None) ins)"
proof -
  obtain d' g rs where run: "decode_run True d (gelf_new cfg) ins = (d', g, rs)" by (metis prod_cases3)
  from run_spec(1) [OF assms run] run show ?thesis by (simp add: test_results_def)
qed

lemma three_chunks:
  assumes "\<forall>c \<in> {c1, c2, c3}. clock_ok default_receive_config c \<and> in_window default_receive_config start c"
  shows "test_results default_receive_config d
    [(c1, udp_chunk 0 0 3 a), (c2, udp_chunk 0 2 3 c), (c3, udp_chunk 0 1 3 b)] =
    [Ok None, Ok None, Ok (Some (Chunked [a, b, c]))]"
proof -
  let ?part = "\<lambda>k :: u8. if k = 0 then a else if k = 1 then b else c"
  let ?ins = "zip [c1, c2, c3] (map (\<lambda>k. udp_chunk 0 k 3 (?part k)) [0, 2, 1])"
  obtain d' g rs where run: "decode_run True d (gelf_new default_receive_config) ?ins = (d', g, rs)"
    using prod_cases3 by blast
  have sets: "set [0, 2, 1] = (of_nat :: nat \<Rightarrow> u8) ` {..<unat (3 :: u8)}"
  proof -
    have "{..<unat (3 :: u8)} = {0, 1, 2}" by auto
    then show ?thesis by auto
  qed
  have "rs = replicate (unat (3 :: u8) - 1) (Ok None) @
      [Ok (Some (Chunked (map (\<lambda>j. ?part (of_nat j)) [0..<unat (3 :: u8)])))]"
    by (rule chunks_decoded [where start = start, OF _ _ _ _ _ _ sets run])
      (use assms in \<open>simp_all add: default_receive_config_def\<close>)
  moreover have "[0..<unat (3 :: u8)] = [0, 1, 2]" by (simp add: upt_conv_Cons)
  moreover have "replicate 2 x = [x, x]" for x :: "message option result"
    by (simp add: numeral_2_eq_2)
  ultimately show ?thesis
    using run by (simp add: test_results_def)
qed

text \<open>Reading a message as text.\<close>

lemma test_readI:
  assumes "into_reader z m = Ok r" and "reads_all (reader_read z) r (ascii s)"
    and "\<forall>k. 0 < sz k" and "valid_utf8 (ascii s)"
  shows "test_read z sz (Ok (Some m)) s"
  using assms by (simp add: test_read_def read_to_string_def reads_all_def chars_ascii)

lemma test_read_plain:
  assumes "message_compression m = None" and "message_body m = ascii s"
    and "\<forall>k. 0 < sz k" and "valid_utf8 (ascii s)"
  shows "test_read z sz (Ok (Some m)) s"
proof (rule test_readI)
  let ?r = "Uncompressed \<lparr>cr_chunk = 0, cr_cursor = 0, cr_msg = m\<rparr>"
  show "into_reader z m = Ok ?r" using assms(1) by (simp add: into_reader_def)
  show "reads_all (reader_read z) ?r (ascii s)"
    using assms(2) by (simp add: reads_all_def rd.read_to_end_total cr_inv_start cr_remaining_start)
qed (use assms in auto)

lemma test_read_compressed:
  assumes "compressor z c enc" and "message_compression m = Some c" and "message_body m = enc (ascii s)"
    and "\<forall>k. 0 < sz k" and "valid_utf8 (ascii s)"
  shows "test_read z sz (Ok (Some m)) s"
proof -
  have "message_bytes m = None"
    using assms(2) by (cases m rule: message_bytes.cases) auto
  with compressed_reads [OF assms(1-3)] obtain r where
    "into_reader z m = Ok r" "reads_all (reader_read z) r (ascii s)"
    by (auto simp: reads_as_def message_mem_def)
  with assms(4,5) show ?thesis by (auto intro: test_readI)
qed

lemma hello_bytes: "ascii ''Hello!'' = [72, 101, 108, 108, 111, 33]"
  "ascii ''Hello World!'' = [72, 101, 108, 108, 111, 32, 87, 111, 114, 108, 100, 33]"
  "ascii ''Hello'' = [72, 101, 108, 108, 111]" "ascii '' World'' = [32, 87, 111, 114, 108, 100]" "ascii ''!'' = [33]"
  by (simp_all add: ascii_def)

lemma hello_valid: "valid_utf8 (ascii ''Hello!'')" "valid_utf8 (ascii ''Hello World!'')"
  by (simp_all add: hello_bytes valid_utf8_ascii)

text \<open>Tests of one datagram.\<close>

lemma single_tests:
  assumes "clock_ok default_receive_config c"
  shows "message_empty c d" "message_unchunked c d" "message_single_chunk c d" "message_chunked_empty c d"
  using assms
  by (simp_all add: message_empty_def message_unchunked_def message_single_chunk_def message_chunked_empty_def
      test_results_spec spec_decode_def chunk_header_get_udp_chunk hello_bytes detect_def
      MAGIC_GZIP_def MAGIC_ZLIB_def MAGIC_CHUNKED_def)

lemma read_unchunked:
  assumes "\<forall>k. 0 < sz k" and "clock_ok default_receive_config c"
  shows "read_message_unchunked_uncompressed z sz c d"
    and "compressor z Gzip gzip \<Longrightarrow> read_message_unchunked_gzip z sz gzip c d"
    and "compressor z Zlib zlib \<Longrightarrow> read_message_unchunked_zlib z sz zlib c d"
proof -
  have one: "test_results default_receive_config d [(c, enc)] = [Ok (Some (Single (Some k) enc))]"
    if "Option.bind (peek_magic_bytes enc) detect = Some k" for enc k
  proof -
    have "peek_magic_bytes enc \<noteq> Some MAGIC_CHUNKED" "enc \<noteq> []"
      using that detect_exclusive by auto
    then show ?thesis using that assms(2) by (simp add: test_results_spec spec_decode_def)
  qed
  show "read_message_unchunked_uncompressed z sz c d"
    using single_tests(2) [OF assms(2), of d] test_read_plain [of "Single None (ascii ''Hello!'')", OF _ _ assms(1) hello_valid(1), of z]
    by (simp add: read_message_unchunked_uncompressed_def message_unchunked_def)
  show "read_message_unchunked_gzip z sz gzip c d" if "compressor z Gzip gzip"
    using one [OF compressorD(3) [OF that]] test_read_compressed [OF that _ _ assms(1) hello_valid(1)]
    by (simp add: read_message_unchunked_gzip_def)
  show "read_message_unchunked_zlib z sz zlib c d" if "compressor z Zlib zlib"
    using one [OF compressorD(3) [OF that]] test_read_compressed [OF that _ _ assms(1) hello_valid(1)]
    by (simp add: read_message_unchunked_zlib_def)
qed

text \<open>Tests of three chunks.\<close>

lemma chunked_tests:
  assumes "\<forall>k. 0 < sz k"
    and clocks: "\<forall>c \<in> {c1, c2, c3}. clock_ok default_receive_config c \<and> in_window default_receive_config start c"
  shows "message_multiple_chunks (c1, c2, c3) d"
    and "read_message_chunked_uncompressed z sz (c1, c2, c3) d"
    and "compressor z Zlib zlib \<Longrightarrow> 4 \<le> length (zlib (ascii ''Hello World!'')) \<Longrightarrow>
      read_message_chunked_zlib z sz zlib (c1, c2, c3) d"
    and "compressor z Gzip gzip \<Longrightarrow> 4 \<le> length (gzip (ascii ''Hello World!'')) \<Longrightarrow>
      read_message_chunked_gzip z sz gzip (c1, c2, c3) d"
proof -
  note run = three_chunks [OF clocks, of d]
  show "message_multiple_chunks (c1, c2, c3) d"
    by (simp add: message_multiple_chunks_def run)
  have "test_read z sz (Ok (Some (Chunked [ascii ''Hello'', ascii '' World'', ascii ''!'']))) ''Hello World!''"
    by (rule test_read_plain [OF _ _ assms(1) hello_valid(2)])
      (simp_all add: hello_bytes detect_def MAGIC_GZIP_def MAGIC_ZLIB_def)
  then show "read_message_chunked_uncompressed z sz (c1, c2, c3) d"
    by (simp add: read_message_chunked_uncompressed_def run)
  have cut: "test_read z sz (Ok (Some (Chunked [take 2 buf, take 2 (drop 2 buf), drop 4 buf]))) ''Hello World!''"
    if enc: "compressor z k enc" and buf: "buf = enc (ascii ''Hello World!'')" "4 \<le> length buf" for k enc buf
  proof (rule test_read_compressed [OF enc _ _ assms(1) hello_valid(2)])
    have whole: "concat [take 2 buf, take 2 (drop 2 buf), drop 4 buf] = buf"
      using append_take_drop_id [of 2 "drop 2 buf"] by simp
    then show "message_body (Chunked [take 2 buf, take 2 (drop 2 buf), drop 4 buf]) = enc (ascii ''Hello World!'')"
      using buf(1) by simp
    show "message_compression (Chunked [take 2 buf, take 2 (drop 2 buf), drop 4 buf]) = Some k"
      by (rule compression_of_chunks [OF enc]) (use whole buf in auto)
  qed
  show "read_message_chunked_zlib z sz zlib (c1, c2, c3) d"
    if "compressor z Zlib zlib" "4 \<le> length (zlib (ascii ''Hello World!''))"
    using cut [OF that(1) refl that(2)] that(2) by (simp add: read_message_chunked_zlib_def run)
  show "read_message_chunked_gzip z sz gzip (c1, c2, c3) d"
    if "compressor z Gzip gzip" "4 \<le> length (gzip (ascii ''Hello World!''))"
    using cut [OF that(1) refl that(2)] that(2) by (simp add: read_message_chunked_gzip_def run)
qed

text \<open>Tests of what is refused.\<close>

lemma refusal_tests:
  assumes "clock_ok default_receive_config c1" and "clock_ok default_receive_config c2"
  shows "adding_chunked_message_with_too_many_chunks_fails c1 d"
    and "adding_more_chunks_than_expected_to_chunked_message_fails (c1, c2) d"
proof -
  have "clock_ok (default_receive_config\<lparr>max_chunks_per_message := 1\<rparr>) c1"
    using assms(1) by (simp add: clock_ok_def)
  then show "adding_chunked_message_with_too_many_chunks_fails c1 d"
    by (simp add: adding_chunked_message_with_too_many_chunks_fails_def test_results_spec spec_decode_def
        chunk_header_get_udp_chunk Let_def)
  show "adding_more_chunks_than_expected_to_chunked_message_fails (c1, c2) d"
    using assms
    by (simp add: adding_more_chunks_than_expected_to_chunked_message_fails_def test_results_spec
        spec_decode_def chunk_header_get_udp_chunk spec_collect_def spec_add_def add_u8_def
        default_receive_config_def Let_def)
qed

text \<open>
  Tests of what is dropped: the sizes of the two indices are that of the abstract state.
\<close>

lemma kept_one:
  assumes "gelf_inv g" and "dom (abs_gelf g) = {i}"
  shows "length (arrival_chunks (by_arrival g)) = 1 \<and> length (by_id g) = 1 \<and> fst (by_id g ! 0) = i"
proof -
  have one: "length (by_id g) = 1" using card_abs_gelf [OF assms(1)] assms(2) by simp
  then obtain k v where e: "by_id g = [(k, v)]" by (cases "by_id g") auto
  then have "dom (abs_gelf g) = {k}" by (auto simp: dom_abs_gelf hm_get_def split: if_splits)
  with one e assms indices_same_length [OF assms(1)] show ?thesis by simp
qed

lemma spec_run_append:
  "spec_run dbg cfg A (xs @ ys) =
   (case spec_run dbg cfg A xs of (A1, rs) \<Rightarrow> (case spec_run dbg cfg A1 ys of (A2, rs') \<Rightarrow> (A2, rs @ rs')))"
  by (induction dbg cfg A xs rule: spec_run.induct) (auto split: prod.splits)

lemma run_3:
  assumes "decode_run True d g [a, b] = (d1, g1, rs)" and "decode True c d1 g1 src = (d2, g2, r)"
  shows "decode_run True d g [a, b, (c, src)] = (d2, g2, rs @ [r])"
  using assms by (cases a; cases b) (auto split: prod.splits)

lemma capacity_test:
  assumes "\<forall>c \<in> {c1, c2, c3}. clock_ok default_receive_config c \<and> in_window default_receive_config start c"
  shows "when_capacity_is_reached_all_incomplete_messages_are_dropped (c1, c2, c3) d"
proof -
  let ?cfg = "default_receive_config\<lparr>incomplete_capacity := 2\<rparr>"
  let ?ins = "[(c1, udp_chunk 0 0 3 (ascii ''1'')), (c2, udp_chunk 1 0 3 (ascii ''2''))]"
    and ?src = "udp_chunk 2 0 3 (ascii ''2'')"
  obtain d1 g1 rs where run: "decode_run True d (gelf_new ?cfg) ?ins = (d1, g1, rs)" using prod_cases3 by blast
  obtain d2 g2 x where last: "decode True c3 d1 g1 ?src = (d2, g2, x)" using prod_cases3 by blast
  have clocks: "clock_ok ?cfg c1" "clock_ok ?cfg c2" "clock_ok ?cfg c3"
    using assms by (auto simp: clock_ok_def)
  have young: "\<not> int (nat (clock_ts c1)) < clock_gc c2 - int (from_millis (incomplete_timeout_ms ?cfg))"
    using assms by (auto simp: in_window_def clock_ok_def)
  note run3 = run_3 [OF run last]
  have two: "spec_run True ?cfg (\<lambda>_. None) ?ins =
      ([0 \<mapsto> \<lparr>p_total = 3, p_parts = [0 \<mapsto> ascii ''1''], p_since = nat (clock_ts c1)\<rparr>,
        1 \<mapsto> \<lparr>p_total = 3, p_parts = [0 \<mapsto> ascii ''2''], p_since = nat (clock_ts c2)\<rparr>], [Ok None, Ok None])"
    using young by (auto simp: spec_decode_udp_chunk default_receive_config_def spec_add_def spec_collect_def fun_eq_iff)
  have three: "spec_run True ?cfg (\<lambda>_. None) (?ins @ [(c3, ?src)]) =
      ([2 \<mapsto> \<lparr>p_total = 3, p_parts = [0 \<mapsto> ascii ''2''], p_since = nat (clock_ts c3)\<rparr>], [Ok None, Ok None, Ok None])"
    unfolding spec_run_append two
    by (simp add: spec_decode_udp_chunk default_receive_config_def spec_add_def spec_collect_def)
  have g1: "dom (abs_gelf g1) = {0, 1}" "rs = [Ok None, Ok None]" "gelf_inv g1"
    using run_spec [OF _ _ run] clocks two by auto
  have g2: "dom (abs_gelf g2) = {2}" "x = Ok None" "gelf_inv g2"
    using run_spec [OF _ _ run3] clocks three g1(2) by auto
  have "length (by_id g1) = 2" using card_abs_gelf [OF g1(3)] g1(1) by simp
  with run last g1(2) indices_same_length [OF g1(3)] g2(2) kept_one [OF g2(3,1)] show ?thesis
    by (simp add: when_capacity_is_reached_all_incomplete_messages_are_dropped_def)
qed

lemma spec_collect_none: "spec_collect cfg now (\<lambda>_. None) = (\<lambda>_. None)"
  by (simp add: spec_collect_def)

lemma spec_collect_old:
  "(\<And>i p. A i = Some p \<Longrightarrow> int (p_since p) < now - int (from_millis (incomplete_timeout_ms cfg))) \<Longrightarrow>
   spec_collect cfg now A = (\<lambda>_. None)"
  by (auto simp: spec_collect_def fun_eq_iff split: option.splits)

lemma timeout_test:
  assumes "\<forall>c \<in> {c1, c2, c3}. clock_ok default_receive_config c"
    and "\<forall>c \<in> {c1, c2}. clock_ts c + 5000000 \<le> clock_gc c3"
  shows "when_timeout_expires_incomplete_messages_are_dropped (c1, c2, c3) d"
proof -
  let ?cfg = "default_receive_config\<lparr>incomplete_timeout_ms := 2\<rparr>"
  let ?ins = "[(c1, udp_chunk 0 0 3 (ascii ''1'')), (c2, udp_chunk 1 0 3 (ascii ''2''))]"
    and ?src = "udp_chunk 2 0 3 (ascii ''2'')"
  obtain d2 g rs where run: "decode_run True d (gelf_new ?cfg) (?ins @ [(c3, ?src)]) = (d2, g, rs)"
    using prod_cases3 by blast
  have clocks: "clock_ok ?cfg c1" "clock_ok ?cfg c2" "clock_ok ?cfg c3"
    using assms by (auto simp: clock_ok_def default_receive_config_def from_millis_def)
  have limit: "from_millis (incomplete_timeout_ms ?cfg) = 2000000"
    and max_chunks: "max_chunks_per_message ?cfg = 128"
    by (simp_all add: from_millis_def default_receive_config_def)
  let ?first = "\<lparr>p_total = 3, p_parts = [0 \<mapsto> ascii ''1''], p_since = nat (clock_ts c1)\<rparr>"
    and ?second = "\<lparr>p_total = 3, p_parts = [0 \<mapsto> ascii ''2''], p_since = nat (clock_ts c2)\<rparr>"
  let ?A = "(spec_collect ?cfg (clock_gc c2) [0 \<mapsto> ?first])(1 \<mapsto> ?second)"
  have "spec_collect ?cfg (clock_gc c2) [0 \<mapsto> ?first] 1 = None"
    by (simp add: spec_collect_def)
  then have two: "spec_run True ?cfg (\<lambda>_. None) ?ins = (?A, [Ok None, Ok None])"
    by (simp add: spec_decode_udp_chunk max_chunks spec_add_def spec_collect_none)
  have "p_since p \<in> {nat (clock_ts c1), nat (clock_ts c2)}" if "?A i = Some p" for i p
    using that by (auto simp: spec_collect_def split: if_splits)
  then have "spec_collect ?cfg (clock_gc c3) ?A = (\<lambda>_. None)"
    using assms(2) clocks limit by (intro spec_collect_old) (fastforce simp: clock_ok_def)
  then have three: "spec_run True ?cfg (\<lambda>_. None) (?ins @ [(c3, ?src)]) =
      ([2 \<mapsto> \<lparr>p_total = 3, p_parts = [0 \<mapsto> ascii ''2''], p_since = nat (clock_ts c3)\<rparr>], [Ok None, Ok None, Ok None])"
    unfolding spec_run_append two
    by (simp add: spec_decode_udp_chunk max_chunks spec_add_def)
  have g: "dom (abs_gelf g) = {2}" "rs = [Ok None, Ok None, Ok None]" "gelf_inv g"
    using run_spec [OF _ _ run] clocks three by auto
  from run g(2) kept_one [OF g(3,1)] show ?thesis
    by (simp add: when_timeout_expires_incomplete_messages_are_dropped_def Let_def del: decode_run.simps)
qed

section \<open>Properties\<close>

text \<open>
  C33: the unit tests of \<open>receive.rs\<close> pass. They do for every decompressor that meets its
  contract, every choice of buffers, every state of the diagnostics, and all readings of a clock
  that stay within the timeout, and, for the test that sleeps, are five milliseconds apart.
\<close>

theorem receive_tests_pass:
  assumes "\<forall>k. 0 < sz k" and "compressor z Gzip gzip" and "compressor z Zlib zlib"
    and "4 \<le> length (gzip (ascii ''Hello World!''))" and "4 \<le> length (zlib (ascii ''Hello World!''))"
    and "\<forall>c \<in> {c1, c2, c3}. clock_ok default_receive_config c \<and> in_window default_receive_config start c"
    and "clock_ok default_receive_config c4" and "\<forall>c \<in> {c1, c2}. clock_ts c + 5000000 \<le> clock_gc c4"
  shows "message_empty c1 d \<and> message_unchunked c1 d \<and>
    read_message_unchunked_uncompressed z sz c1 d \<and>
    read_message_unchunked_gzip z sz gzip c1 d \<and> read_message_unchunked_zlib z sz zlib c1 d \<and>
    message_single_chunk c1 d \<and> message_chunked_empty c1 d \<and>
    message_multiple_chunks (c1, c2, c3) d \<and> read_message_chunked_uncompressed z sz (c1, c2, c3) d \<and>
    read_message_chunked_zlib z sz zlib (c1, c2, c3) d \<and> read_message_chunked_gzip z sz gzip (c1, c2, c3) d \<and>
    when_capacity_is_reached_all_incomplete_messages_are_dropped (c1, c2, c3) d \<and>
    when_timeout_expires_incomplete_messages_are_dropped (c1, c2, c4) d \<and>
    adding_chunked_message_with_too_many_chunks_fails c1 d \<and>
    adding_more_chunks_than_expected_to_chunked_message_fails (c1, c2) d"
  by (intro conjI single_tests read_unchunked chunked_tests [OF assms(1,6)] capacity_test [OF assms(6)]
      timeout_test refusal_tests) (use assms in auto)

definition later_clock :: clock where
  "later_clock = \<lparr>clock_gc = 6005000000, clock_ts = 6005000000\<rparr>"

theorem receive_tests_pass_witness:
  "read_message_chunked_gzip marking (\<lambda>_. 2) (\<lambda>bs. 0x1f # 0x8b # bs)
     (example_clock, example_clock, example_clock) (initial_diag 0) \<and>
   when_timeout_expires_incomplete_messages_are_dropped (example_clock, example_clock, later_clock) (initial_diag 0)"
proof -
  have "clock_ok default_receive_config later_clock"
    by (simp add: clock_ok_def later_clock_def default_receive_config_def from_millis_def)
  then show ?thesis
    using receive_tests_pass [OF _ marking_compressor, of "\<lambda>_. 2" example_clock example_clock example_clock
        6000000000 later_clock "initial_diag 0"] example_clock_ok
    by (simp add: example_clock_def later_clock_def ascii_def)
qed

end
