(* ===== verification/Process_Json.thy ===== *)
theory Process_Json
  imports Process_Props
begin

text \<open>
  The derived parsers of \<open>process/gelf.rs\<close> and \<open>process/clef.rs\<close>: what \<open>serde\<close> makes of
  the members of a JSON object, by the names and attributes of the two structs. How numbers are
  converted is up to the libraries, the fields of the record \<open>numbers\<close> (\<open>rust_decimal\<close> has a
  parser of its own, which takes numbers and texts); whether a text is
  borrowed from the input is up to the JSON parser, the argument \<open>visit\<close>.
\<close>

section \<open>Objects\<close>

type_synonym 'n object = "(string, 'n json) btree_map"

text \<open>Members that are inserted one after the other, as by \<open>json!\<close> and \<open>to_value\<close>.\<close>

definition object_of :: "(string \<times> 'n json) list \<Rightarrow> 'n object" where
  "object_of kvs = fold (\<lambda>(k, v). bt_insert k v) kvs []"

record ('d, 'n) numbers =
  num_decimal :: "'n json \<Rightarrow> 'd option"
  num_u8 :: "'n \<Rightarrow> u8 option"
  num_u32 :: "'n \<Rightarrow> u32 option"

section \<open>Members\<close>

definition invalid_type :: error where
  "invalid_type = Library ''invalid type'' []"

fun text_member :: "(string \<Rightarrow> 'a) \<Rightarrow> 'n json \<Rightarrow> 'a result" where
  "text_member mk (JString s) = Ok (mk s)"
| "text_member mk _ = Err invalid_type"

fun number_member :: "('n \<Rightarrow> 'a option) \<Rightarrow> 'n json \<Rightarrow> 'a result" where
  "number_member conv (JNumber n) = (case conv n of Some x \<Rightarrow> Ok x | None \<Rightarrow> Err invalid_type)"
| "number_member conv _ = Err invalid_type"

definition decimal_member :: "('d, 'n) numbers \<Rightarrow> 'n json \<Rightarrow> 'd result" where
  "decimal_member num v = (case num_decimal num v of Some x \<Rightarrow> Ok x | None \<Rightarrow> Err invalid_type)"

text \<open>An \<open>Option\<close>: nothing when the member is missing or \<open>null\<close>.\<close>

definition opt_member :: "('n json \<Rightarrow> 'a result) \<Rightarrow> string \<Rightarrow> 'n object \<Rightarrow> 'a option result" where
  "opt_member f name fs =
     (case bt_get fs name of
        None \<Rightarrow> Ok None
      | Some JNull \<Rightarrow> Ok None
      | Some v \<Rightarrow> outcome_bind (f v) (\<lambda>x. Ok (Some x)))"

definition member :: "('n json \<Rightarrow> 'a result) \<Rightarrow> string \<Rightarrow> 'n object \<Rightarrow> 'a result" where
  "member f name fs =
     (case bt_get fs name of
        None \<Rightarrow> Err (Library (''missing field `'' @ name @ ''`'') [])
      | Some v \<Rightarrow> f v)"

text \<open>\<open>#[serde(flatten)]\<close>: the members that no field has taken.\<close>

definition other_members :: "string list \<Rightarrow> 'n object \<Rightarrow> 'n object" where
  "other_members names fs = filter (\<lambda>(k, _). k \<notin> set names) fs"

section \<open>GELF messages\<close>

definition gelf_names :: "string list" where
  "gelf_names =
     [''version'', ''host'', ''short_message'', ''full_message'', ''timestamp'', ''level'',
      ''facility'', ''line'', ''file'']"

definition gelf_deserialize ::
  "('d, 'n) numbers \<Rightarrow> (string \<Rightarrow> 's) \<Rightarrow> (string \<Rightarrow> 'm) \<Rightarrow> 'n object \<Rightarrow>
   ('s, 'm, 'd, 'n) gelf_message result" where
  "gelf_deserialize num mk_s mk_m fs =
     outcome_bind (opt_member (text_member mk_s) ''version'' fs) (\<lambda>version.
     outcome_bind (opt_member (text_member mk_s) ''host'' fs) (\<lambda>host.
     outcome_bind (member (text_member mk_m) ''short_message'' fs) (\<lambda>short_message.
     outcome_bind (opt_member (text_member mk_m) ''full_message'' fs) (\<lambda>full_message.
     outcome_bind (opt_member (decimal_member num) ''timestamp'' fs) (\<lambda>timestamp.
     outcome_bind (opt_member (number_member (num_u8 num)) ''level'' fs) (\<lambda>level.
     outcome_bind (opt_member (text_member mk_m) ''facility'' fs) (\<lambda>facility.
     outcome_bind (opt_member (number_member (num_u32 num)) ''line'' fs) (\<lambda>line.
     outcome_bind (opt_member (text_member mk_m) ''file'' fs) (\<lambda>file.
       Ok \<lparr>gm_version = version, gm_host = host, gm_short_message = short_message,
           gm_full_message = full_message, gm_timestamp = timestamp, gm_level = level,
           gm_facility = facility, gm_line = line, gm_file = file,
           gm_additional = Some (JObject (other_members gelf_names fs))\<rparr>)))))))))"

section \<open>Events\<close>

fun timestamp_member :: "rfc3339 \<Rightarrow> (string \<Rightarrow> visited) \<Rightarrow> 'n json \<Rightarrow> timestamp result" where
  "timestamp_member parse visit (JString s) = timestamp_deserialize parse (visit s)"
| "timestamp_member parse visit _ = Err invalid_type"

definition clef_deserialize :: "rfc3339 \<Rightarrow> (string \<Rightarrow> visited) \<Rightarrow> 'n object \<Rightarrow> 'n clef result" where
  "clef_deserialize parse visit fs =
     (let mk = (\<lambda>s. str_deserialize (\<lambda>s. s) (visit s))
      in outcome_bind (opt_member (timestamp_member parse visit) ''@t'' fs) (\<lambda>timestamp.
         outcome_bind (opt_member (text_member mk) ''@l'' fs) (\<lambda>level.
         outcome_bind (opt_member (text_member mk) ''@m'' fs) (\<lambda>message.
         outcome_bind (opt_member (text_member mk) ''@mt'' fs) (\<lambda>message_template.
         outcome_bind (opt_member (text_member mk) ''@x'' fs) (\<lambda>exception.
           Ok \<lparr>cm_timestamp = timestamp, cm_level = level, cm_message = message,
               cm_message_template = message_template, cm_exception = exception,
               cm_additional = map (\<lambda>(k, v). (mk k, v)) (other_members reserved fs)\<rparr>))))))"

section \<open>Facts\<close>

lemmas to_clef_defs = to_clef_def set_level_def set_timestamp_def set_exception_def set_message_def
  override_all_def override_opt_def override_value_def additional_def strip_underscore_def
  from_message_def maybe_from_json_def syslog_level_def Let_def

lemma bt_wf_fold: "bt_wf m \<Longrightarrow> bt_wf (fold (\<lambda>(k, v). bt_insert k v) kvs m)"
  by (induction kvs arbitrary: m) (auto simp: bt_wf_insert)

lemma bt_wf_object_of: "bt_wf (object_of kvs)"
  unfolding object_of_def by (rule bt_wf_fold) (simp add: bt_wf_def)

lemma bt_get_fold:
  "bt_wf m \<Longrightarrow> distinct (map fst kvs) \<Longrightarrow>
   bt_get (fold (\<lambda>(k, v). bt_insert k v) kvs m) k =
   (case map_of kvs k of Some v \<Rightarrow> Some v | None \<Rightarrow> bt_get m k)"
proof (induction kvs arbitrary: m)
  case (Cons kv kvs)
  obtain k' v where kv: "kv = (k', v)" by fastforce
  have "k' \<notin> dom (map_of kvs)" using Cons.prems(2) by (simp add: kv dom_map_of_conv_image_fst)
  then show ?case
    using Cons.IH [of "bt_insert k' v m"] Cons.prems
    by (auto simp: kv bt_wf_insert bt_get_insert split: option.splits)
qed simp

lemma bt_get_object_of: "distinct (map fst kvs) \<Longrightarrow> bt_get (object_of kvs) k = map_of kvs k"
  using bt_get_fold [of "[]" kvs k] by (simp add: object_of_def bt_wf_def bt_get_def split: option.splits)

lemma bt_get_other_members:
  "bt_get (other_members names fs) k = (if k \<in> set names then None else bt_get fs k)"
  by (induction fs) (auto simp: other_members_def bt_get_def)

lemma sm_get_map: "(\<And>k. str_text (mk k) = k) \<Longrightarrow> sm_get (map (\<lambda>(k, v). (mk k, v)) fs) k = bt_get fs k"
  by (induction fs) (auto simp: bt_get_def)

lemma deserialized_str: "str_text (str_deserialize (\<lambda>s. s) v) = visited_text v"
  by (cases v) auto

text \<open>The members of a printed event, by name.\<close>

lemma map_of_clef_members:
  assumes "set reserved \<inter> set (sm_keys (cm_additional c)) = {}" and "clef_members fmt c = Ok ms"
  shows "timestamp_json fmt (cm_timestamp c) = Ok (the (map_of ms ''@t''))" and "map_of ms ''@t'' \<noteq> None"
    and "map_of ms ''@l'' =
      Some (case cm_level c of None \<Rightarrow> JNull | Some s \<Rightarrow> JString (str_text s))"
    and "map_of ms ''@m'' = map_option (JString \<circ> str_text) (cm_message c)"
    and "map_of ms ''@mt'' = map_option (JString \<circ> str_text) (cm_message_template c)"
    and "map_of ms ''@x'' = map_option (JString \<circ> str_text) (cm_exception c)"
    and "k \<notin> set reserved \<Longrightarrow> map_of ms k = sm_get (cm_additional c) k"
proof -
  have "sm_get (cm_additional c) k = None" if "k \<in> set reserved" for k
    using assms that sm_keys_get [of k "cm_additional c"] by auto
  then have none: "map_of (map (\<lambda>(k, v). (str_text k, v)) (cm_additional c)) k = None" if "k \<in> set reserved" for k
    using that by (simp add: sm_get_map_of)
  obtain t where ms: "ms = (''@t'', t) # clef_fields c" "timestamp_json fmt (cm_timestamp c) = Ok t"
    using assms(2) by (auto simp: clef_members_Ok)
  note members = ms(1) clef_fields_def Let_def map_of_append map_add_def reserved_def none sm_get_map_of
  show "timestamp_json fmt (cm_timestamp c) = Ok (the (map_of ms ''@t''))" "map_of ms ''@t'' \<noteq> None"
    using ms(2) by (simp_all add: ms(1))
  show "map_of ms ''@l'' =
      Some (case cm_level c of None \<Rightarrow> JNull | Some s \<Rightarrow> JString (str_text s))"
    "map_of ms ''@m'' = map_option (JString \<circ> str_text) (cm_message c)"
    "map_of ms ''@mt'' = map_option (JString \<circ> str_text) (cm_message_template c)"
    "map_of ms ''@x'' = map_option (JString \<circ> str_text) (cm_exception c)"
    by (simp_all add: members split: option.splits)
  show "map_of ms k = sm_get (cm_additional c) k" if "k \<notin> set reserved"
    using that by (auto simp: members split: option.splits)
qed

section \<open>Properties\<close>

text \<open>
  C31: a printed event can be read back. Take the event of any message, if the embedded event has
  no two equal names and neither it nor the payload uses a name that the format reserves.
  Reading its members again gives the same timestamp and the same texts and members, given a
  reader of timestamps that reads what was written.
\<close>

theorem clef_roundtrip:
  assumes "to_clef dbg lib now s_ref m_ref msg = Ok c"
    and "sm_wf (cm_additional (embedded lib m_ref msg))"
    and "set reserved \<inter> (set (sm_keys (cm_additional (embedded lib m_ref msg)))
      \<union> fst ` set (payload msg)) = {}"
    and "\<forall>s. visited_text (visit s) = s"
    and "clef_members (format_rfc3339 lib) c = Ok ms"
    and "\<forall>t s. cm_timestamp c = Some (Timestamp t) \<and> format_rfc3339 lib t = Ok s \<longrightarrow> parse_rfc3339 lib s = Inr t"
  shows "\<exists>c'. clef_deserialize (parse_rfc3339 lib) visit (object_of ms) = Ok c' \<and>
    cm_timestamp c' = cm_timestamp c \<and>
    map_option str_text (cm_level c') = map_option str_text (cm_level c) \<and>
    map_option str_text (cm_message c') = map_option str_text (cm_message c) \<and>
    map_option str_text (cm_message_template c') = map_option str_text (cm_message_template c) \<and>
    map_option str_text (cm_exception c') = map_option str_text (cm_exception c) \<and>
    sm_get (cm_additional c') = sm_get (cm_additional c)"
proof -
  let ?mk = "\<lambda>s. str_deserialize (\<lambda>s. s) (visit s)" and ?fs = "object_of ms"
  note names = to_clef_names [OF assms(1-3)]
  have "distinct (map fst ms)"
    using names builtin_names_reserved [of c] by (auto simp: clef_members_names [OF assms(5)] sm_wf_def)
  note get = bt_get_object_of [OF this] and members = map_of_clef_members [OF names(1) assms(5)]
  have mk: "str_text (?mk s) = s" for s
    using assms(4) by (simp add: deserialized_str)
  have time: "opt_member (timestamp_member (parse_rfc3339 lib) visit) ''@t'' ?fs = Ok (cm_timestamp c)"
  proof (cases "cm_timestamp c")
    case (Some ts)
    obtain t where ts: "ts = Timestamp t" by (cases ts)
    then obtain s where s: "format_rfc3339 lib t = Ok s" "map_of ms ''@t'' = Some (JString s)"
      using members(1,2) Some by (auto simp: timestamp_json_def outcome_bind_Ok_iff)
    with assms(4,6) Some ts show ?thesis by (simp add: opt_member_def get timestamp_deserialize_def)
  qed (use members(1,2) in \<open>auto simp: opt_member_def get timestamp_json_def\<close>)
  have texts: "opt_member (text_member ?mk) name ?fs = Ok (map_option (?mk \<circ> str_text) x)"
    if "map_of ms name = map_option (JString \<circ> str_text) x" for name x
    using that by (cases x) (simp_all add: opt_member_def get)
  have level: "opt_member (text_member ?mk) ''@l'' ?fs = Ok (map_option (?mk \<circ> str_text) (cm_level c))"
    by (cases "cm_level c") (simp_all add: opt_member_def get members)
  have "sm_get (map (\<lambda>(k, v). (?mk k, v)) (other_members reserved ?fs)) k = sm_get (cm_additional c) k" for k
    using names(1) sm_keys_get [of k "cm_additional c"]
    by (auto simp: sm_get_map [OF mk] bt_get_other_members get members)
  then show ?thesis
    using mk by (simp add: clef_deserialize_def time level texts members fun_eq_iff comp_def option.map_comp)
qed

definition reading_lib :: "(string, bool \<times> nat \<times> nat, nat, (unit, unit) reader) process_lib" where
  "reading_lib = sample_lib\<lparr>parse_rfc3339 := (\<lambda>_. Inr 1500000000),
     format_rfc3339 := (\<lambda>t. if t = 1500000000 then Ok ''then'' else Err (Library ''other'' []))\<rparr>"

theorem clef_roundtrip_witness:
  "\<exists>c ms c'. to_clef False reading_lib 9 str_text str_text (sample_message (Borrowed ''hi'')) = Ok c \<and>
     clef_members (format_rfc3339 reading_lib) c = Ok ms \<and>
     clef_deserialize (\<lambda>_. Inr 1500000000) Visit_str (object_of ms) = Ok c' \<and>
     cm_timestamp c' = Some (Timestamp 1500000000) \<and> sm_get (cm_additional c') ''x'' = Some (JNumber 7)"
proof -
  let ?msg = "sample_message (Borrowed ''hi'') :: (string str, string str, bool \<times> nat \<times> nat, nat) gelf_message"
  have "\<exists>c. to_clef False reading_lib 9 str_text str_text ?msg = Ok c \<and>
      cm_timestamp c = Some (Timestamp 1500000000) \<and> sm_get (cm_additional c) ''x'' = Some (JNumber 7)"
    by (simp add: reading_lib_def sample_defs to_clef_defs from_decimal_def sub_u32_def pow_u32_def mul_u32_def
        duration_new_def system_time_checked_add_def)
  then obtain c where c: "to_clef False reading_lib 9 str_text str_text ?msg = Ok c"
    "cm_timestamp c = Some (Timestamp 1500000000)" "sm_get (cm_additional c) ''x'' = Some (JNumber 7)"
    by blast
  have lib: "parse_rfc3339 reading_lib = (\<lambda>_. Inr 1500000000)"
    "\<forall>t s. cm_timestamp c = Some (Timestamp t) \<and> format_rfc3339 reading_lib t = Ok s \<longrightarrow>
      parse_rfc3339 reading_lib s = Inr t"
    by (simp_all add: reading_lib_def sample_lib_def)
  have ms: "clef_members (format_rfc3339 reading_lib) c = Ok ((''@t'', JString ''then'') # clef_fields c)"
    using c(2) by (simp add: clef_members_def timestamp_json_def reading_lib_def)
  have "sm_wf (cm_additional (embedded reading_lib str_text ?msg))"
    "set reserved \<inter> (set (sm_keys (cm_additional (embedded reading_lib str_text ?msg)))
      \<union> fst ` set (payload ?msg)) = {}"
    by (simp_all add: reading_lib_def sample_defs embedded_def to_clef_defs payload_def option_list_def sm_wf_def
        sm_keys_def reserved_def)
  from clef_roundtrip [OF c(1) this _ ms lib(2), of Visit_str] c lib(1) ms show ?thesis
    by auto
qed

end
