(* ===== verification/Process_Tests.thy ===== *)
theory Process_Tests
  imports Process_Json Process_Run
begin

text \<open>
  The unit tests of \<open>process/mod.rs\<close> and \<open>process/clef.rs\<close>, run on the model. A test is true
  when none of its assertions fails. Its inputs are JSON values; what \<open>serde_json\<close> prints for
  a value is the argument \<open>to_text\<close>, the value of a numeric literal is \<open>lit\<close>.
\<close>

section \<open>What the tests use\<close>

definition accepted :: "(diag \<times> 'w \<times> unit result) option \<Rightarrow> bool" where
  "accepted r = (case r of Some (_, _, Ok _) \<Rightarrow> True | _ \<Rightarrow> False)"

definition refused_with :: "(error \<Rightarrow> bool) \<Rightarrow> (diag \<times> 'w \<times> unit result) option \<Rightarrow> bool" where
  "refused_with P r = (case r of Some (_, _, Err e) \<Rightarrow> P e | _ \<Rightarrow> False)"

fun contains_str :: "string \<Rightarrow> string \<Rightarrow> bool" where
  "contains_str [] pat = (pat = [])"
| "contains_str (c # s) pat = (take (length pat) (c # s) = pat \<or> contains_str s pat)"

text \<open>The checks of a test are made by the closure: a check that fails panics.\<close>

definition asserting :: "('n clef \<Rightarrow> bool) \<Rightarrow> 'n clef \<Rightarrow> unit \<Rightarrow> unit \<times> unit result" where
  "asserting check c w = (w, if check c then Ok () else Panic (Panic_string ''assertion failed''))"

text \<open>\<open>to_value\<close> of an event, compared with what is expected.\<close>

definition event_is :: "(system_time \<Rightarrow> string result) \<Rightarrow> 'n clef \<Rightarrow> 'n object \<Rightarrow> bool" where
  "event_is fmt c expected = (case clef_members fmt c of Ok ms \<Rightarrow> object_of ms = expected | _ \<Rightarrow> False)"

fun is_borrowed :: "'s str option \<Rightarrow> bool" where
  "is_borrowed (Some (Borrowed _)) = True"
| "is_borrowed _ = False"

section \<open>The inputs of the tests\<close>

definition gelf_msg :: "(string \<Rightarrow> 'n) \<Rightarrow> 'n object" where
  "gelf_msg lit =
     object_of
       [(''version'', JString ''1.1''), (''host'', JString ''example.org''),
        (''short_message'', JString ''A short message that helps you identify what is going on''),
        (''full_message'', JString ''Backtrace here''),
        (''timestamp'', JNumber (lit ''1385053862.3072'')), (''level'', JNumber (lit ''1'')),
        (''_user_id'', JNumber (lit ''9001'')), (''_some_info'', JString ''foo''),
        (''_some_env_var'', JString ''bar'')]"

definition inner_clef :: "(string \<Rightarrow> 'n) \<Rightarrow> 'n object" where
  "inner_clef lit =
     object_of
       [(''@l'', JString ''info''),
        (''@mt'', JString ''A short message that helps {user_id} identify what is going on''),
        (''@t'', JString ''2013-11-21T17:11:02Z''), (''@x'', JString ''Backtrace here''),
        (''user_id'', JNumber (lit ''4000''))]"

definition inner_gelf :: "(string \<Rightarrow> 'n) \<Rightarrow> string \<Rightarrow> 'n object" where
  "inner_gelf lit short =
     object_of
       [(''version'', JString ''1.1''), (''host'', JString ''example.org''),
        (''short_message'', JString short), (''level'', JNumber (lit ''1'')),
        (''_user_id'', JNumber (lit ''9001'')), (''_some_info'', JString ''foo''),
        (''_some_env_var'', JString ''bar''), (''_container_id'', JString ''abcdefghijklmnopqrstuv''),
        (''_command'', JString ''run''), (''_container_name'', JString ''test-container''),
        (''_image_name'', JString ''test/image''), (''_image_id'', JString ''abcdefghijklmnopqrstuv''),
        (''_tag'', JString ''latest'')]"

definition fallback_json :: "'n object" where
  "fallback_json =
     object_of
       [(''level'', JString ''error''),
        (''message'', JString ''A short message that helps {user_id} identify what is going on''),
        (''timestamp'', JString ''2022-06-21T17:11:02.307200000Z'')]"

definition fallback_gelf :: "(string \<Rightarrow> 'n) \<Rightarrow> string \<Rightarrow> 'n object" where
  "fallback_gelf lit short =
     object_of
       [(''version'', JString ''1.1''), (''timestamp'', JNumber (lit ''1385053862.3072'')),
        (''host'', JString ''example.org''), (''short_message'', JString short),
        (''level'', JNumber (lit ''6''))]"

definition raw_gelf :: "(string \<Rightarrow> 'n) \<Rightarrow> 'n object" where
  "raw_gelf lit =
     object_of
       [(''version'', JString ''1.1''), (''host'', JString ''example.org''),
        (''short_message'', JString ''A short message that helps you identify what is going on''),
        (''full_message'', JString ''Backtrace here''),
        (''timestamp'', JNumber (lit ''1385053862.04736'')), (''level'', JNumber (lit ''1'')),
        (''_user_id'', JNumber (lit ''9001'')), (''_some_info'', JString ''foo''),
        (''_some_env_var'', JString ''bar'')]"

section \<open>The tests of the processor\<close>

definition from_gelf_msg ::
  "('c, 'd, 'n, cursor) process_lib \<Rightarrow> system_time \<Rightarrow> ('n json \<Rightarrow> bytes) \<Rightarrow> (string \<Rightarrow> 'n) \<Rightarrow> diag \<Rightarrow> bool" where
  "from_gelf_msg lib now to_text lit d \<longleftrightarrow>
     (let gelf = JObject (gelf_msg lit);
          expected = object_of
            [(''@t'', JString ''2013-11-21T17:11:02.307200000Z''), (''@l'', JString ''alert''),
             (''@m'', JString ''A short message that helps you identify what is going on''),
             (''@x'', JString ''Backtrace here''), (''some_env_var'', JString ''bar''),
             (''some_info'', JString ''foo''), (''user_id'', JNumber (lit ''9001'')),
             (''host'', JString ''example.org'')]
      in accepted (with_clef True lib now slice_mem (process_new default_process_config) (to_text gelf)
           (asserting (\<lambda>c. is_borrowed (cm_message c) \<and>
              event_is (format_rfc3339 lib) c expected)) d ()))"

definition from_gelf_inner_json ::
  "('c, 'd, 'n, cursor) process_lib \<Rightarrow> system_time \<Rightarrow> ('n json \<Rightarrow> bytes) \<Rightarrow> (string \<Rightarrow> 'n) \<Rightarrow> diag \<Rightarrow> bool" where
  "from_gelf_inner_json lib now to_text lit d \<longleftrightarrow>
     (let clef = JObject (inner_clef lit);
          gelf = JObject (inner_gelf lit (chars (to_text clef)));
          expected = object_of
            [(''@l'', JString ''info''),
             (''@mt'', JString ''A short message that helps {user_id} identify what is going on''),
             (''@t'', JString ''2013-11-21T17:11:02Z''), (''@x'', JString ''Backtrace here''),
             (''some_env_var'', JString ''bar''), (''some_info'', JString ''foo''),
             (''user_id'', JNumber (lit ''9001'')), (''__user_id'', JNumber (lit ''4000'')),
             (''container_id'', JString ''abcdefghijklmnopqrstuv''), (''command'', JString ''run''),
             (''container_name'', JString ''test-container''), (''image_name'', JString ''test/image''),
             (''image_id'', JString ''abcdefghijklmnopqrstuv''), (''tag'', JString ''latest''),
             (''host'', JString ''example.org'')]
      in accepted (with_clef True lib now slice_mem (process_new default_process_config) (to_text gelf)
           (asserting (\<lambda>c. event_is (format_rfc3339 lib) c expected)) d ()))"

definition from_gelf_inner_json_fallback ::
  "('c, 'd, 'n, cursor) process_lib \<Rightarrow> system_time \<Rightarrow> ('n json \<Rightarrow> bytes) \<Rightarrow> (string \<Rightarrow> 'n) \<Rightarrow> diag \<Rightarrow> bool" where
  "from_gelf_inner_json_fallback lib now to_text lit d \<longleftrightarrow>
     (let inner_json = JObject (fallback_json);
          gelf = JObject (fallback_gelf lit (chars (to_text inner_json)));
          expected = object_of
            [(''@l'', JString ''error''),
             (''@m'', JString ''A short message that helps {user_id} identify what is going on''),
             (''@t'', JString ''2022-06-21T17:11:02.307200000Z''), (''host'', JString ''example.org''),
             (''level'', JString ''error''),
             (''message'', JString ''A short message that helps {user_id} identify what is going on''),
             (''timestamp'', JString ''2022-06-21T17:11:02.307200000Z'')]
      in accepted (with_clef True lib now slice_mem (process_new default_process_config) (to_text gelf)
           (asserting (\<lambda>c. event_is (format_rfc3339 lib) c expected)) d ()))"

definition include_raw_payload_test ::
  "('c, 'd, 'n, cursor) process_lib \<Rightarrow> system_time \<Rightarrow> ('n json \<Rightarrow> bytes) \<Rightarrow> (string \<Rightarrow> 'n) \<Rightarrow> diag \<Rightarrow> bool" where
  "include_raw_payload_test lib now to_text lit d \<longleftrightarrow>
     (let gelf = JObject (raw_gelf lit);
          expected = object_of
            [(''@t'', JString ''2013-11-21T17:11:02.047360000Z''), (''@l'', JString ''alert''),
             (''@m'', JString ''A short message that helps you identify what is going on''),
             (''@x'', JString ''Backtrace here''), (''some_env_var'', JString ''bar''),
             (''some_info'', JString ''foo''), (''user_id'', JNumber (lit ''9001'')),
             (''host'', JString ''example.org''), (''raw_payload'', JString (chars (to_text gelf)))]
      in accepted (with_clef True lib now slice_mem (process_new \<lparr>include_raw_payload = True\<rparr>) (to_text gelf)
           (asserting (\<lambda>c. is_borrowed (cm_message c) \<and>
              event_is (format_rfc3339 lib) c expected)) d ()))"

text \<open>The closure of the tests that fail to parse is \<open>unreachable!\<close>.\<close>

definition invalid_json_includes_some_raw_content ::
  "('c, 'd, 'n, cursor) process_lib \<Rightarrow> system_time \<Rightarrow> diag \<Rightarrow> bool" where
  "invalid_json_includes_some_raw_content lib now d \<longleftrightarrow>
     (let gelf = ''this is definitely not json''
      in refused_with (\<lambda>e. contains_str (display e) gelf)
           (with_clef True lib now slice_mem (process_new \<lparr>include_raw_payload = True\<rparr>) (ascii gelf)
              (asserting (\<lambda>_. False)) d ()))"

definition non_utf8_input_includes_some_raw_content ::
  "('c, 'd, 'n, cursor) process_lib \<Rightarrow> system_time \<Rightarrow> diag \<Rightarrow> bool" where
  "non_utf8_input_includes_some_raw_content lib now d \<longleftrightarrow>
     (let gelf = take 3 [0xF0, 0x9F, 0xA6, 0xAB]
      in refused_with (\<lambda>e. contains_str (display e) (from_utf8_lossy gelf))
           (with_clef True lib now slice_mem (process_new \<lparr>include_raw_payload = True\<rparr>) gelf
              (asserting (\<lambda>_. False)) d ()))"

section \<open>The tests of timestamps\<close>

definition timestamp_from_decimal :: "'d decimal \<Rightarrow> (system_time \<Rightarrow> string result) \<Rightarrow> (nat \<Rightarrow> nat \<Rightarrow> 'd) \<Rightarrow> bool" where
  "timestamp_from_decimal dec fmt decimal_new \<longleftrightarrow>
     (case from_decimal True dec (decimal_new 1666223567 0) of
        Ok (Some ts) \<Rightarrow>
          (case timestamp_serialize fmt ts of
             Ok s \<Rightarrow> ''\"'' @ s @ ''\"'' = ''\"2022-10-19T23:52:47Z\"'' | _ \<Rightarrow> False)
      | _ \<Rightarrow> False)"

definition timestamp_from_decimal_overflow :: "'d decimal \<Rightarrow> (nat \<Rightarrow> nat \<Rightarrow> 'd) \<Rightarrow> bool" where
  "timestamp_from_decimal_overflow dec decimal_new \<longleftrightarrow>
     from_decimal True dec (decimal_new (2 ^ 64 - 1) 0) = Ok None"

section \<open>The contract of the libraries\<close>

text \<open>
  The parser reads the text of an object as the derived parser reads the object; a text is
  borrowed from the input or not, but kept.
\<close>

definition reads_gelf ::
  "('c, 'd, 'n, cursor) process_lib \<Rightarrow> ('d, 'n) numbers \<Rightarrow> (string \<Rightarrow> visited) \<Rightarrow> ('n json \<Rightarrow> bytes) \<Rightarrow> 'n object \<Rightarrow> bool" where
  "reads_gelf lib num visit to_text fs \<longleftrightarrow>
     (let mk = (\<lambda>s. str_deserialize (\<lambda>s. s) (visit s))
      in gelf_from_slice lib (to_text (JObject fs)) = gelf_deserialize num mk mk fs \<and>
         valid_utf8 (to_text (JObject fs)))"

definition reads_clef ::
  "('c, 'd, 'n, cursor) process_lib \<Rightarrow> (string \<Rightarrow> visited) \<Rightarrow> ('n json \<Rightarrow> bytes) \<Rightarrow> 'n object \<Rightarrow> bool" where
  "reads_clef lib visit to_text fs \<longleftrightarrow>
     (let s = chars (to_text (JObject fs))
      in s \<noteq> [] \<and> hd s = CHR ''{'' \<and>
         clef_from_str lib s =
           (case clef_deserialize (parse_rfc3339 lib) visit fs of Ok c \<Rightarrow> Some c | _ \<Rightarrow> None))"

text \<open>What the literals of the tests stand for, and the texts of the times they name.\<close>

definition literals :: "('d, 'n) numbers \<Rightarrow> (string \<Rightarrow> 'n) \<Rightarrow> 'd decimal \<Rightarrow> ('d \<Rightarrow> bool) \<Rightarrow> ('d \<Rightarrow> nat) \<Rightarrow> bool" where
  "literals num lit dec neg coeff \<longleftrightarrow>
     num_u8 num (lit ''1'') = Some 1 \<and> num_u8 num (lit ''6'') = Some 6 \<and>
     (\<exists>x. num_decimal num (JNumber (lit ''1385053862.3072'')) = Some x \<and> \<not> neg x \<and> coeff x = 13850538623072 \<and>
        dec_scale dec x = 4) \<and>
     (\<exists>x. num_decimal num (JNumber (lit ''1385053862.04736'')) = Some x \<and> \<not> neg x \<and> coeff x = 138505386204736 \<and>
        dec_scale dec x = 5)"

definition time_texts :: "rfc3339 \<Rightarrow> (system_time \<Rightarrow> string result) \<Rightarrow> bool" where
  "time_texts parse fmt \<longleftrightarrow>
     fmt 1385053862307200000 = Ok ''2013-11-21T17:11:02.307200000Z'' \<and>
     fmt 1385053862047360000 = Ok ''2013-11-21T17:11:02.047360000Z'' \<and>
     parse ''2013-11-21T17:11:02Z'' = Inr 1385053862000000000 \<and>
     fmt 1385053862000000000 = Ok ''2013-11-21T17:11:02Z'' \<and>
     parse ''2022-06-21T17:11:02.307200000Z'' = Inr 1655831462307200000 \<and>
     fmt 1655831462307200000 = Ok ''2022-06-21T17:11:02.307200000Z'' \<and>
     fmt 1666223567000000000 = Ok ''2022-10-19T23:52:47Z''"

section \<open>They pass\<close>

lemma mk_text: "\<forall>s. visited_text (visit s) = s \<Longrightarrow> str_text (str_deserialize (\<lambda>s. s) (visit s)) = s"
  by (simp add: deserialized_str)

text \<open>A test hands the event of its input to its checks.\<close>

lemma accepted_with_clef:
  assumes "parse_slice lib (raw_payload p) bs = Ok msg" and "to_clef True lib now str_text str_text msg = Ok c" and "check c"
  shows "accepted (with_clef True lib now slice_mem p bs (asserting check) d ())"
  using assms by (simp add: with_clef_def slice_mem_def slice_bytes_def accepted_def asserting_def)

lemmas json_defs = gelf_deserialize_def decimal_member_def opt_member_def member_def other_members_def gelf_names_def
  object_of_def bt_get_def invalid_type_def

lemma from_gelf_msg_passes:
  assumes reads: "reads_gelf lib num visit to_text (gelf_msg lit)" and "\<forall>s. visited_text (visit s) = s"
    and lits: "literals num lit (decimals lib) neg coeff" and dec: "decimal_contract (decimals lib) neg coeff"
    and times: "time_texts (parse_rfc3339 lib) (format_rfc3339 lib)"
  shows "from_gelf_msg lib now to_text lit d"
proof -
  note mk = mk_text [OF assms(2)]
  obtain x where x: "num_decimal num (JNumber (lit ''1385053862.3072'')) = Some x" "\<not> neg x" "coeff x = 13850538623072"
    "dec_scale (decimals lib) x = 4"
    using lits by (auto simp: literals_def)
  have time: "from_decimal True (decimals lib) x = Ok (Some (Timestamp 1385053862307200000))"
    using from_decimal_short [OF dec x(2), of True] x(3,4) by simp
  show ?thesis
    using reads lits times
    apply (simp add: from_gelf_msg_def Let_def reads_gelf_def gelf_msg_def)
    apply (rule accepted_with_clef)
    apply (simp add: parse_slice_def process_new_def default_process_config_def json_defs x literals_def)
    apply (simp add: to_clef_defs mk time)
    apply (simp add: event_is_def object_of_def clef_members_def clef_fields_def timestamp_json_def Let_def time_texts_def)
    done
qed

lemma include_raw_payload_passes:
  assumes reads: "reads_gelf lib num visit to_text (raw_gelf lit)" and "\<forall>s. visited_text (visit s) = s"
    and lits: "literals num lit (decimals lib) neg coeff" and dec: "decimal_contract (decimals lib) neg coeff"
    and times: "time_texts (parse_rfc3339 lib) (format_rfc3339 lib)"
  shows "include_raw_payload_test lib now to_text lit d"
proof -
  note mk = mk_text [OF assms(2)]
  obtain x where x: "num_decimal num (JNumber (lit ''1385053862.04736'')) = Some x" "\<not> neg x" "coeff x = 138505386204736"
    "dec_scale (decimals lib) x = 5"
    using lits by (auto simp: literals_def)
  have time: "from_decimal True (decimals lib) x = Ok (Some (Timestamp 1385053862047360000))"
    using from_decimal_short [OF dec x(2), of True] x(3,4) by simp
  have utf8: "from_utf8_lossy (to_text (JObject (raw_gelf lit))) = chars (to_text (JObject (raw_gelf lit)))"
    using reads by (simp add: reads_gelf_def Let_def from_utf8_lossy_valid)
  show ?thesis
    using reads lits times utf8
    apply (simp add: include_raw_payload_test_def Let_def reads_gelf_def raw_gelf_def)
    apply (rule accepted_with_clef)
    apply (simp add: parse_slice_def process_new_def parse_context_def json_defs x literals_def)
    apply (simp add: to_clef_defs mk time add_def bt_get_def)
    apply (simp add: event_is_def object_of_def clef_members_def clef_fields_def timestamp_json_def Let_def time_texts_def)
    done
qed

text \<open>The embedded events, and the messages around them.\<close>

lemma inner_event:
  assumes "reads_clef lib visit to_text (inner_clef lit)" and "\<forall>s. visited_text (visit s) = s"
    and "time_texts (parse_rfc3339 lib) (format_rfc3339 lib)"
  shows "maybe_from_json (clef_from_str lib) (chars (to_text (JObject (inner_clef lit)))) = Some
    (let mk = (\<lambda>s. str_deserialize (\<lambda>s. s) (visit s))
     in \<lparr>cm_timestamp = Some (Timestamp 1385053862000000000), cm_level = Some (mk ''info''), cm_message = None,
         cm_message_template = Some (mk ''A short message that helps {user_id} identify what is going on''),
         cm_exception = Some (mk ''Backtrace here''),
         cm_additional = [(mk ''user_id'', JNumber (lit ''4000''))]\<rparr>)"
proof -
  let ?s = "chars (to_text (JObject (inner_clef lit)))"
  have "maybe_from_json (clef_from_str lib) ?s =
      (case clef_deserialize (parse_rfc3339 lib) visit (inner_clef lit) of Ok c \<Rightarrow> Some c | _ \<Rightarrow> None)"
    using assms(1) by (simp add: reads_clef_def Let_def maybe_from_json_def)
  then show ?thesis
    using assms(2,3)
    by (simp add: inner_clef_def clef_deserialize_def json_defs time_texts_def timestamp_deserialize_def
        reserved_def Let_def)
qed

lemma fallback_event:
  assumes "reads_clef lib visit to_text fallback_json" and "\<forall>s. visited_text (visit s) = s"
  shows "maybe_from_json (clef_from_str lib) (chars (to_text (JObject fallback_json))) = Some
    (let mk = (\<lambda>s. str_deserialize (\<lambda>s. s) (visit s))
     in \<lparr>cm_timestamp = None, cm_level = None, cm_message = None, cm_message_template = None, cm_exception = None,
         cm_additional =
           [(mk ''level'', JString ''error''),
            (mk ''message'', JString ''A short message that helps {user_id} identify what is going on''),
            (mk ''timestamp'', JString ''2022-06-21T17:11:02.307200000Z'')]\<rparr>)"
proof -
  let ?s = "chars (to_text (JObject fallback_json))"
  have "maybe_from_json (clef_from_str lib) ?s =
      (case clef_deserialize (parse_rfc3339 lib) visit fallback_json of Ok c \<Rightarrow> Some c | _ \<Rightarrow> None)"
    using assms(1) by (simp add: reads_clef_def Let_def maybe_from_json_def)
  then show ?thesis
    by (simp add: fallback_json_def clef_deserialize_def json_defs reserved_def Let_def)
qed

lemma parsed_text:
  assumes "reads_gelf lib num visit to_text fs"
  shows "parse_slice lib False (to_text (JObject fs)) =
    (let mk = (\<lambda>s. str_deserialize (\<lambda>s. s) (visit s)) in gelf_deserialize num mk mk fs)"
  using assms by (simp add: reads_gelf_def parse_slice_def Let_def)

text \<open>Overriding, one field after the other.\<close>

lemma override_steps:
  "override_all [] fs = fs" "override_all ((k, v) # kvs) fs = override_all kvs (override_value k v fs)"
  "sm_get fs k = None \<Longrightarrow> override_value k v fs = sm_insert (Borrowed k) v fs"
  "sm_get fs k = Some old \<Longrightarrow>
   override_value k v fs = sm_insert (Owned (''__'' @ k)) old (sm_insert (Borrowed k) v fs)"
  by (simp_all add: override_all_def override_value_def)

text \<open>The mapping, one step after the other.\<close>

lemma to_clefI:
  assumes "set_timestamp dbg (decimals lib) (parse_rfc3339 lib) now (gm_timestamp msg)
      (set_level (gm_level msg) (embedded lib m_ref msg)) = Ok c1"
    and "set_message (set_exception (m_ref (gm_short_message msg)) (map_option m_ref (gm_full_message msg)) c1) = c2"
    and "(case additional msg of Some kvs \<Rightarrow> override_all kvs (cm_additional c2) | None \<Rightarrow> cm_additional c2) = fs1"
    and "override_opt ''line'' (map_option (JNumber \<circ> number_from lib) (gm_line msg))
      (override_opt ''file'' (map_option (JString \<circ> m_ref) (gm_file msg))
      (override_opt ''facility'' (map_option (JString \<circ> m_ref) (gm_facility msg))
      (override_opt ''host'' (map_option (JString \<circ> s_ref) (gm_host msg)) fs1))) = fs2"
  shows "to_clef dbg lib now s_ref m_ref msg = Ok (c2\<lparr>cm_additional := fs2\<rparr>)"
  using assms(1) unfolding assms(2-4) [symmetric] by (simp add: to_clef_def embedded_def Let_def)

lemma from_gelf_inner_json_passes:
  assumes reads: "reads_gelf lib num visit to_text (inner_gelf lit (chars (to_text (JObject (inner_clef lit)))))"
    and inner: "reads_clef lib visit to_text (inner_clef lit)" and "\<forall>s. visited_text (visit s) = s"
    and lits: "literals num lit (decimals lib) neg coeff"
    and times: "time_texts (parse_rfc3339 lib) (format_rfc3339 lib)"
  shows "from_gelf_inner_json lib now to_text lit d"
proof -
  note mk = mk_text [OF assms(3)] and event = inner_event [OF inner assms(3) times]
  define short where "short = chars (to_text (JObject (inner_clef lit)))"
  note parsed = parsed_text [OF reads, folded short_def]
  have level: "num_u8 num (lit ''1'') = Some 1" using lits by (simp add: literals_def)
  show ?thesis
    unfolding from_gelf_inner_json_def Let_def short_def [symmetric]
    apply (rule accepted_with_clef)
    apply (simp only: process_new_def default_process_config_def process.simps process_config.simps parsed Let_def)
    apply (simp add: inner_gelf_def json_defs level)
    apply (rule to_clefI)
    apply (simp add: embedded_def mk event [folded short_def] set_level_def set_timestamp_def Let_def)
    apply (simp add: set_exception_def set_message_def)
    apply (simp add: additional_def strip_underscore_def override_steps mk)
    apply (simp add: override_opt_def override_steps mk)
    using times apply (simp add: event_is_def object_of_def clef_members_def clef_fields_def timestamp_json_def Let_def time_texts_def mk)
    done
qed

lemma from_gelf_inner_json_fallback_passes:
  assumes reads: "reads_gelf lib num visit to_text (fallback_gelf lit (chars (to_text (JObject fallback_json))))"
    and inner: "reads_clef lib visit to_text fallback_json" and "\<forall>s. visited_text (visit s) = s"
    and lits: "literals num lit (decimals lib) neg coeff"
    and times: "time_texts (parse_rfc3339 lib) (format_rfc3339 lib)"
  shows "from_gelf_inner_json_fallback lib now to_text lit d"
proof -
  note mk = mk_text [OF assms(3)] and event = fallback_event [OF inner assms(3)]
  define short where "short = chars (to_text (JObject fallback_json))"
  note parsed = parsed_text [OF reads, folded short_def]
  obtain x where lit: "num_u8 num (lit ''6'') = Some 6" "num_decimal num (JNumber (lit ''1385053862.3072'')) = Some x"
    using lits by (auto simp: literals_def)
  have time: "parse_rfc3339 lib ''2022-06-21T17:11:02.307200000Z'' = Inr 1655831462307200000"
    using times by (simp add: time_texts_def)
  show ?thesis
    unfolding from_gelf_inner_json_fallback_def Let_def short_def [symmetric]
    apply (rule accepted_with_clef)
    apply (simp only: process_new_def default_process_config_def process.simps process_config.simps parsed Let_def)
    apply (simp add: fallback_gelf_def json_defs lit)
    apply (rule to_clefI)
    apply (simp add: embedded_def mk event [folded short_def] set_level_def set_timestamp_def Let_def
        try_from_value_def try_parse_rfc3339_def time)
    apply (simp add: set_exception_def set_message_def mk try_from_value_def)
    apply (simp add: additional_def override_steps)
    apply (simp add: override_opt_def override_steps mk)
    using times apply (simp add: event_is_def object_of_def clef_members_def clef_fields_def timestamp_json_def Let_def time_texts_def mk)
    done
qed

text \<open>Tests of what does not parse.\<close>

lemma contains_str_middle: "contains_str (xs @ pat @ ys) pat"
proof (induction xs)
  case Nil
  have "take (length pat) (pat @ ys) = pat" by simp
  then show ?case by (cases "pat @ ys") (auto simp del: take_append)
qed simp

lemma refused_raw:
  assumes "gelf_from_slice lib bs = Err e" and "debug_text lib (from_utf8_lossy bs) = q @ from_utf8_lossy bs @ q"
  shows "refused_with (\<lambda>e. contains_str (display e) (from_utf8_lossy bs))
    (with_clef True lib now slice_mem (process_new \<lparr>include_raw_payload = True\<rparr>) bs f d w)"
  using assms contains_str_middle [of "''could not parse GELF from: '' @ q" "from_utf8_lossy bs" q]
  by (simp add: refused_with_def with_clef_def slice_mem_def slice_bytes_def process_new_def parse_slice_def
      parse_context_def)

lemma not_json_text: "from_utf8_lossy (ascii ''this is definitely not json'') = ''this is definitely not json''"
proof -
  have "valid_utf8 (ascii ''this is definitely not json'')"
    by (rule valid_utf8_ascii) (simp add: ascii_def)
  then show ?thesis by (simp add: from_utf8_lossy_valid chars_ascii)
qed

lemma refusal_tests_pass:
  assumes "gelf_from_slice lib (ascii ''this is definitely not json'') = Err e1"
    and "gelf_from_slice lib [0xF0, 0x9F, 0xA6] = Err e2"
    and "\<forall>s \<in> {''this is definitely not json'', from_utf8_lossy [0xF0, 0x9F, 0xA6]}. debug_text lib s = q @ s @ q"
  shows "invalid_json_includes_some_raw_content lib now d" "non_utf8_input_includes_some_raw_content lib now d"
  using refused_raw [OF assms(1), where q = q] refused_raw [OF assms(2), where q = q] assms(3) not_json_text
  by (simp_all add: invalid_json_includes_some_raw_content_def non_utf8_input_includes_some_raw_content_def Let_def)

text \<open>Tests of timestamps.\<close>

lemma timestamp_tests_pass:
  assumes dec: "decimal_contract dec neg coeff"
    and new: "\<forall>c < 2 ^ 64. \<not> neg (decimal_new c 0) \<and> coeff (decimal_new c 0) = c \<and> dec_scale dec (decimal_new c 0) = 0"
    and "time_texts parse fmt"
  shows "timestamp_from_decimal dec fmt decimal_new" "timestamp_from_decimal_overflow dec decimal_new"
proof -
  have "from_decimal True dec (decimal_new 1666223567 0) = Ok (Some (Timestamp 1666223567000000000))"
    using from_decimal_short [OF dec, of "decimal_new 1666223567 0" True] new by simp
  with assms(3) show "timestamp_from_decimal dec fmt decimal_new"
    by (simp add: timestamp_from_decimal_def time_texts_def)
  show "timestamp_from_decimal_overflow dec decimal_new"
    using decimal_contractD [OF dec, of "decimal_new (2 ^ 64 - 1) 0"] new
    by (simp add: timestamp_from_decimal_overflow_def from_decimal_unfold sub_u32_def pow_u32_def mul_u32_def
        duration_new_def system_time_checked_add_def)
qed

section \<open>Properties\<close>

text \<open>
  C32: the unit tests of \<open>process/mod.rs\<close> and \<open>process/clef.rs\<close> pass. They do for all libraries
  that read the texts of the test's objects as the derived parsers read the objects, know the
  numbers and times that the tests name, and print a text for debugging between quotes.
\<close>

theorem process_tests_pass:
  assumes "\<forall>s. visited_text (visit s) = s"
    and "\<forall>fs \<in> {gelf_msg lit, raw_gelf lit, inner_gelf lit (chars (to_text (JObject (inner_clef lit)))),
        fallback_gelf lit (chars (to_text (JObject fallback_json)))}. reads_gelf lib num visit to_text fs"
    and "\<forall>fs \<in> {inner_clef lit, fallback_json}. reads_clef lib visit to_text fs"
    and "decimal_contract (decimals lib) neg coeff" and "literals num lit (decimals lib) neg coeff"
    and "\<forall>c < 2 ^ 64. \<not> neg (decimal_new c 0) \<and> coeff (decimal_new c 0) = c \<and>
        dec_scale (decimals lib) (decimal_new c 0) = 0"
    and "time_texts (parse_rfc3339 lib) (format_rfc3339 lib)"
    and "\<forall>bs \<in> {ascii ''this is definitely not json'', [0xF0, 0x9F, 0xA6]}. \<exists>e. gelf_from_slice lib bs = Err e"
    and "\<forall>s \<in> {''this is definitely not json'', from_utf8_lossy [0xF0, 0x9F, 0xA6]}. debug_text lib s = q @ s @ q"
  shows "from_gelf_msg lib now to_text lit d \<and> from_gelf_inner_json lib now to_text lit d \<and>
    from_gelf_inner_json_fallback lib now to_text lit d \<and> include_raw_payload_test lib now to_text lit d \<and>
    invalid_json_includes_some_raw_content lib now d \<and> non_utf8_input_includes_some_raw_content lib now d \<and>
    timestamp_from_decimal (decimals lib) (format_rfc3339 lib) decimal_new \<and>
    timestamp_from_decimal_overflow (decimals lib) decimal_new"
proof -
  obtain e1 e2 where "gelf_from_slice lib (ascii ''this is definitely not json'') = Err e1"
    "gelf_from_slice lib [0xF0, 0x9F, 0xA6] = Err e2"
    using assms(8) by auto
  note refusals = refusal_tests_pass [OF this assms(9)]
  show ?thesis
    using from_gelf_msg_passes [OF _ assms(1,5,4,7)] include_raw_payload_passes [OF _ assms(1,5,4,7)]
      from_gelf_inner_json_passes [OF _ _ assms(1,5,7)] from_gelf_inner_json_fallback_passes [OF _ _ assms(1,5,7)]
      refusals timestamp_tests_pass [where decimal_new = decimal_new, OF assms(4,6,7)] assms(2,3)
    by simp
qed

text \<open>
  Libraries that meet the contract: numbers are their literals, an object is printed as what
  sets the objects of the tests apart, and is parsed by that.
\<close>

definition scalar :: "string json option \<Rightarrow> string" where
  "scalar v = (case v of Some (JNumber n) \<Rightarrow> n | Some (JString s) \<Rightarrow> s | _ \<Rightarrow> [])"

fun brief_text :: "string json \<Rightarrow> bytes" where
  "brief_text (JObject fs) = ascii (''{'' @ scalar (bt_get fs ''timestamp'') @ '','' @ scalar (bt_get fs ''level''))"
| "brief_text _ = []"

definition test_numbers :: "(bool \<times> nat \<times> nat, string) numbers" where
  "test_numbers =
     \<lparr>num_decimal = (\<lambda>v. if v = JNumber ''1385053862.3072'' then Some (False, 13850538623072, 4)
        else if v = JNumber ''1385053862.04736'' then Some (False, 138505386204736, 5) else None),
      num_u8 = (\<lambda>n. if n = ''1'' then Some 1 else if n = ''6'' then Some 6 else None),
      num_u32 = (\<lambda>_. None)\<rparr>"

definition test_parse :: rfc3339 where
  "test_parse s =
     (if s = ''2013-11-21T17:11:02Z'' then Inr 1385053862000000000
      else if s = ''2022-06-21T17:11:02.307200000Z'' then Inr 1655831462307200000
      else Inl ''invalid'')"

definition test_format :: "system_time \<Rightarrow> string result" where
  "test_format t =
     (if t = 1385053862307200000 then Ok ''2013-11-21T17:11:02.307200000Z''
      else if t = 1385053862047360000 then Ok ''2013-11-21T17:11:02.047360000Z''
      else if t = 1385053862000000000 then Ok ''2013-11-21T17:11:02Z''
      else if t = 1655831462307200000 then Ok ''2022-06-21T17:11:02.307200000Z''
      else if t = 1666223567000000000 then Ok ''2022-10-19T23:52:47Z'' else Panic Panic_other)"

definition test_gelf :: "string \<Rightarrow> string object option" where
  "test_gelf s =
     (if s = ''{1385053862.3072,1'' then Some (gelf_msg (\<lambda>s. s))
      else if s = ''{1385053862.04736,1'' then Some (raw_gelf (\<lambda>s. s))
      else if s = ''{,1'' then Some (inner_gelf (\<lambda>s. s) ''{,'')
      else if s = ''{1385053862.3072,6''
      then Some (fallback_gelf (\<lambda>s. s) ''{2022-06-21T17:11:02.307200000Z,error'') else None)"

definition test_clef :: "string \<Rightarrow> string object option" where
  "test_clef s =
     (if s = ''{,'' then Some (inner_clef (\<lambda>s. s))
      else if s = ''{2022-06-21T17:11:02.307200000Z,error'' then Some fallback_json else None)"

definition test_lib :: "(string, bool \<times> nat \<times> nat, string, cursor) process_lib" where
  "test_lib =
     (let mk = (\<lambda>s. str_deserialize (\<lambda>s. s) (Visit_borrowed_str s))
      in \<lparr>decimals = sample_decimal, parse_rfc3339 = test_parse, format_rfc3339 = test_format,
          clef_from_str = (\<lambda>s. case test_clef s of
              Some fs \<Rightarrow> (case clef_deserialize test_parse Visit_borrowed_str fs of Ok c \<Rightarrow> Some c | _ \<Rightarrow> None)
            | None \<Rightarrow> None),
          clef_to_string = (\<lambda>ms. Some (concat (map fst ms))),
          number_from = (\<lambda>_. []), cached_text = (\<lambda>s. s),
          gelf_from_slice = (\<lambda>bs. case test_gelf (chars bs) of
              Some fs \<Rightarrow> gelf_deserialize test_numbers mk mk fs
            | None \<Rightarrow> Err (Library ''expected value'' [])),
          gelf_from_str = (\<lambda>_. Err (Library ''expected value'' [])),
          gelf_from_reader = (\<lambda>_ _. Err (Library ''expected value'' [])),
          debug_text = (\<lambda>s. ''\"'' @ s @ ''\"''), buffer_size = (\<lambda>_. 32)\<rparr>)"

lemma brief_texts:
  "brief_text (JObject (gelf_msg (\<lambda>s. s))) = ascii ''{1385053862.3072,1''"
  "brief_text (JObject (raw_gelf (\<lambda>s. s))) = ascii ''{1385053862.04736,1''"
  "brief_text (JObject (inner_gelf (\<lambda>s. s) short)) = ascii ''{,1''"
  "brief_text (JObject (fallback_gelf (\<lambda>s. s) short)) = ascii ''{1385053862.3072,6''"
  "brief_text (JObject (inner_clef (\<lambda>s. s))) = ascii ''{,''"
  "brief_text (JObject fallback_json) = ascii ''{2022-06-21T17:11:02.307200000Z,error''"
  by (simp_all add: gelf_msg_def raw_gelf_def inner_gelf_def fallback_gelf_def inner_clef_def fallback_json_def
      bt_get_object_of scalar_def)

declare brief_text.simps [simp del]

lemma test_reads_gelf:
  assumes "fs \<in> {gelf_msg (\<lambda>s. s), raw_gelf (\<lambda>s. s), inner_gelf (\<lambda>s. s) ''{,'',
      fallback_gelf (\<lambda>s. s) ''{2022-06-21T17:11:02.307200000Z,error''}"
  shows "reads_gelf test_lib test_numbers Visit_borrowed_str brief_text fs"
proof -
  have "valid_utf8 (ascii s)" if "list_all (\<lambda>c. (of_char c :: u8) < 128) s" for s
    by (rule valid_utf8_ascii) (use that in \<open>auto simp: ascii_def list_all_iff\<close>)
  then have "valid_utf8 (brief_text (JObject fs))" using assms by (auto simp: brief_texts)
  moreover have "test_gelf (chars (brief_text (JObject fs))) = Some fs"
    using assms by (auto simp: brief_texts chars_ascii test_gelf_def)
  ultimately show ?thesis by (simp add: reads_gelf_def test_lib_def Let_def)
qed

lemma test_reads_clef:
  assumes "fs \<in> {inner_clef (\<lambda>s. s), fallback_json}"
  shows "reads_clef test_lib Visit_borrowed_str brief_text fs"
  using assms by (auto simp: reads_clef_def test_lib_def test_clef_def brief_texts chars_ascii Let_def)

theorem process_tests_pass_witness:
  "from_gelf_msg test_lib 9 brief_text (\<lambda>s. s) (initial_diag 0) \<and>
   from_gelf_inner_json test_lib 9 brief_text (\<lambda>s. s) (initial_diag 0) \<and>
   from_gelf_inner_json_fallback test_lib 9 brief_text (\<lambda>s. s) (initial_diag 0) \<and>
   include_raw_payload_test test_lib 9 brief_text (\<lambda>s. s) (initial_diag 0) \<and>
   timestamp_from_decimal_overflow sample_decimal (\<lambda>c s. (False, c, s))"
proof -
  have lib: "decimals test_lib = sample_decimal" "parse_rfc3339 test_lib = test_parse"
    "format_rfc3339 test_lib = test_format"
    by (simp_all add: test_lib_def Let_def)
  have "literals test_numbers (\<lambda>s. s) sample_decimal fst (\<lambda>(n, c, s). c)"
    by (simp add: literals_def test_numbers_def sample_decimal_def)
  moreover have "time_texts test_parse test_format"
    by (simp add: time_texts_def test_parse_def test_format_def)
  moreover have "\<forall>bs \<in> {ascii ''this is definitely not json'', [0xF0, 0x9F, 0xA6]}.
      \<exists>e. gelf_from_slice test_lib bs = Err e"
    by (simp add: test_lib_def test_gelf_def Let_def chars_ascii) (simp add: chars_def char_of_def)
  moreover have "\<forall>s. debug_text test_lib s = ''\"'' @ s @ ''\"''"
    by (simp add: test_lib_def Let_def)
  moreover have "\<forall>c < 2 ^ 64. \<not> fst (False, c, 0 :: nat) \<and> (\<lambda>(n, c, s). c) (False, c, 0 :: nat) = c \<and>
      dec_scale sample_decimal (False, c, 0) = 0"
    by (simp add: sample_decimal_def)
  ultimately show ?thesis
    using process_tests_pass [where lib = test_lib and num = test_numbers and visit = Visit_borrowed_str
        and to_text = brief_text and lit = "\<lambda>s. s" and now = 9 and d = "initial_diag 0" and neg = fst
        and coeff = "\<lambda>(n, c, s). c" and decimal_new = "\<lambda>c s. (False, c, s)" and q = "''\"''"]
      test_reads_gelf test_reads_clef sample_decimal_contract
    by (simp add: lib brief_texts chars_ascii)
qed

end
