(* ===== verification/Spec2Isabelle.thy ===== *)
theory Spec2Isabelle
  imports Tcp_Run Receive_Tests Process_Tests
begin

text \<open>
  A verification library for \<open>sqelf\<close>, the GELF input of Seq: a server that receives GELF
  log messages over UDP or TCP, puts chunked messages together, turns each into an event in
  the CLEF format and prints it on standard output.

  \<^bold>\<open>The parts and how they interact.\<close> \<open>main.rs\<close> reads the configuration (\<open>config.rs\<close>),
  starts the diagnostics (\<open>diagnostics.rs\<close>), builds a receiver (\<open>receive.rs\<close>) and a
  processor (\<open>process\<close>), and gives both to the server (\<open>server/mod.rs\<close>). The server binds
  a UDP socket (\<open>server/udp.rs\<close>) or a TCP listener (\<open>server/tcp.rs\<close>), whose bytes go
  through a decoder to \<open>receive\<close>; complete messages come back as events of a \<open>select!\<close>
  loop, which hands them to \<open>process\<close>. The diagnostics are global state that every part
  counts in and writes to, and that a thread of its own samples.

  \<^bold>\<open>Conventions.\<close> Stateful code is state passing: the state of an object is a record (\<open>gelf\<close>,
  \<open>tcp_decoder\<close>, \<open>listen\<close>, \<open>diag\<close> for the globals of the diagnostics, a list of lines for
  standard output) that every operation takes and returns. A fallible operation returns
  \<open>'a result\<close>: \<open>Ok\<close>, \<open>Err\<close> with a value of the datatype \<open>error\<close>, or \<open>Panic\<close> with its
  payload. Integers keep their width; where the source uses plain arithmetic, the argument
  \<open>dbg\<close> says whether the build checks overflow (and panics) or wraps. A clock is an argument,
  read as often as the code reads it.

  \<^bold>\<open>Shared theories.\<close>
  \<^item> \<open>Gelf_Prelude\<close>: bytes, machine integers, outcomes, association lists for \<open>HashMap\<close> and
    \<open>BTreeMap\<close>, and the locale \<open>finite_map\<close> of their laws, interpreted for both here and
    for maps with \<open>Str\<close> keys in \<open>Process_Str\<close>.
  \<^item> \<open>Gelf_Error\<close>: the errors of the program with their texts and sources.
  \<^item> \<open>Sys_Time\<close>: durations and system times of the standard library.
  \<^item> \<open>Utf8\<close>: the standard library's validity check and lossy decoding of UTF-8.

  \<^bold>\<open>Diagnostics\<close> (\<open>diagnostics.rs\<close>): levels, the counters of the \<open>metrics!\<close> blocks, events on
  standard error, starting, sampling and stopping. The sampling thread takes one counter at a
  time and then prints; its state is part of the handle. Counts are conserved under every
  interleaving of increments with its steps, and stopping prints what is left, if the thread
  can be joined.

  \<^bold>\<open>Receiving\<close> (\<open>receive.rs\<close>).
  \<^item> \<open>Message\<close>: compression detection, messages, the chunk header and the encoder of chunks
    that the tests use; decoding a header inverts the encoder exactly.
  \<^item> \<open>Reader\<close>: \<open>ChunkRead\<close> and \<open>Reader\<close> (also \<open>MemRead\<close> of \<open>io.rs\<close> for slices). The locale
    \<open>byte_reader\<close> proves once that reading to the end terminates and returns what is left.
  \<^item> \<open>Receive\<close>: \<open>Gelf\<close> with its two indices (by id and by arrival), garbage collection,
    \<open>push\<close> and \<open>decode\<close>, the whole handlers with their diagnostics.
  \<^item> \<open>Receive_Inv\<close>: the invariant that ties the indices together, kept by every operation.
  \<^item> \<open>Receive_Spec\<close>: the abstract machine with one partial message per id, and the
    simulation of each operation by it.
  \<^item> \<open>Receive_Run\<close>: runs of the decoder through the locale \<open>receiver\<close>; reassembly in any
    order and with any other traffic, the memory bound, what expires, and when it panics.

  \<^bold>\<open>Processing\<close> (\<open>process\<close>).
  \<^item> \<open>Process_Str\<close> (\<open>str.rs\<close>): \<open>Str\<close> and \<open>Inlinable\<close>, and hash maps with such keys.
  \<^item> \<open>Clef\<close> (\<open>clef.rs\<close>): events, timestamps and the members that are printed.
  \<^item> \<open>Process\<close> (\<open>gelf.rs\<close>, \<open>mod.rs\<close>): GELF messages, \<open>to_clef\<close> step by step, and the
    processor with its two ways to parse, from a slice and from a reader.
  \<^item> \<open>Process_Fields\<close>, \<open>Process_Props\<close>: overriding as a function on names; which source of a
    name wins, what an event holds, and when two members of it would have one name.
  \<^item> \<open>Process_Json\<close>: the parsers that \<open>serde\<close> derives for the two structs, as functions of the
    members of an object; an event that was printed is read back.
  \<^item> \<open>Process_Run\<close>: the processor on any message. The locale \<open>mem_reader\<close> is what it needs of a
    readable one, interpreted for messages and for slices. The datatype \<open>fate\<close> is what becomes of a
    message in a release build: it is printed as one line; it is refused, because it cannot be
    decompressed or does not parse; or it crashes the processor, exactly when the time of its
    event cannot be printed, as from the year 10000 on.

  \<^bold>\<open>Serving\<close> (\<open>server\<close>).
  \<^item> \<open>Received\<close>, \<open>Udp\<close>: what a decoder hands to the loop; datagrams.
  \<^item> \<open>Tcp_Decode\<close>, \<open>Tcp_Frames\<close>: the frame decoder with its read head and its skipping of long
    messages; it equals a scan of the buffer from its start, and however a stream is cut, the
    frames are those of the whole stream.
  \<^item> \<open>Tcp_Server\<close>: accepting, timeouts, quiet closing and the pool \<open>Listen\<close>. The locale
    \<open>acceptor\<close> is interpreted for plain and for TLS connections and for the choice between
    them; \<open>conn_set\<close> is what \<open>Listen\<close> needs of the set of connections, and \<open>listener\<close> is both.
  \<^item> \<open>Tcp_Conn\<close>: one connection as it is polled, \<open>FramedRead\<close> and the timeout around its reads,
    and the set of them. \<open>FramedRead\<close> may read and decode in any order; only what it does at
    the end of the stream is fixed. The locale \<open>quiet_receiver\<close> gives \<open>conn_set\<close>.
  \<^item> \<open>Tcp_History\<close>: the state of a connection follows from the frames its receiver was given.
  \<^item> \<open>Server\<close>: configuration, setting up, the loop over events, the handle and the future.
  \<^item> \<open>Server_Props\<close>: the loop goes on through every message that is printed or refused, and
    what stops it; its counters add up, as an invariant of the step relation \<open>serve_step\<close> in
    which the loop and the steps of the sampling thread interleave. The locales \<open>processor\<close> and
    \<open>printer\<close> are what the loop relies on, over the fates of messages; \<open>libraries_ok\<close> collects the
    contracts under which the program's processor meets them.

  \<^bold>\<open>The program.\<close> \<open>Config\<close> is \<open>config.rs\<close>, \<open>Sqelf_Main\<close> is \<open>main.rs\<close>. What happens
  to the program is a list of occurrences: an item of the stream, a read of standard input by
  its thread, a look of \<open>select!\<close> at the handle, a signal. \<open>select_events\<close> makes of them the events
  of the loop: the arm of the handle fires only after the thread, which a Seq app starts, has
  closed the handle. The exit code is given for every outcome, including that a server that
  cannot be set up is reported but leaves code 0. \<open>Udp_Serve\<close> and \<open>Tcp_Run\<close>
  put the two sides together, from datagrams and from any number of clients that connect and
  are polled in any order to lines of output.

  \<open>Compressed\<close> is about payloads that are compressed, given the contract of the decompressors.
  \<open>Receive_Tests\<close> runs the unit tests of \<open>receive.rs\<close> on the model, for all clocks that a run
  of them may see, and \<open>Process_Tests\<close> those of \<open>process/mod.rs\<close> and \<open>process/clef.rs\<close>, for all
  libraries that meet their contract: what the authors expect of their code is what the
  definitions do. These are all unit tests of the crate.

  \<^bold>\<open>Bounds and fuel.\<close> No definition has fuel. Loops are structural recursion over what arrives,
  or have a measure (the unread bytes of a reader, the answers of the listener). Reading to
  the end of an arbitrary reader is a \<open>partial_function\<close> into \<open>option\<close>, and is proved to
  return where the properties need it. The event loop is a function of the events so far;
  that it is still waiting is the value \<open>Continue\<close>. Runs of the decoder are shorter than
  \<open>2 ^ 64\<close> datagrams, because the arrival counter wraps there.

  \<^bold>\<open>Libraries as parameters.\<close> The decompressors of \<open>libflate\<close> (\<open>compressor\<close>); the parsers and the printer of
  \<open>serde_json\<close>, of which the properties assume only that the slice, string and reader
  variants accept the same bytes with the same result (\<open>parsers_agree\<close>), that a reader that
  fails is an error and that an object is printed (\<open>serde_contract\<close>), and in the unit tests
  that the text of an object is read as the derived parser reads the object (\<open>reads_gelf\<close>,
  \<open>reads_clef\<close>); the arithmetic of
  \<open>rust_decimal\<close> (\<open>decimal_contract\<close>); the RFC 3339 text of
  \<open>humantime\<close>, which writes the times from 1970 to the year 9999 and makes the writer of JSON
  panic on others (\<open>rfc3339_contract\<close>); the string cache and
  the capacity of inline strings; sockets, files, \<open>rustls\<close>, the start of the
  runtime and whether the sampling thread can be joined (the record \<open>net\<close>); the answers of the \<open>tokio\<close> runtime to polls. A handshake gives the
  connection or an error; what is read from it is the decrypted stream. Each contract has an instance in the development. A
  handshake that is not finished keeps the listener from being polled again; it is an
  answer \<open>Pending\<close> of the stream of connections.

  \<^bold>\<open>Not modelled.\<close> Failures to write to standard output and standard error, on which the
  printing macros panic; the scheduling of futures and threads beyond the order of their effects;
  memory and the sharing of \<open>Bytes\<close>; \<open>Debug\<close> implementations; JSON text, that is how
  \<open>serde_json\<close> reads and prints it; the integration tests, except their encoder of chunks;
  build scripts and examples.
\<close>

end
